theory Spec2Isabelle
  imports Main "HOL-Library.Sublist"
begin

section \<open>Data model (shared config types)\<close>

text \<open>
  The types of the MCP environment initialiser (\<^verbatim>\<open>McpEnvInitStage\<close>, \<^verbatim>\<open>McpEnvInitLog\<close>,
  \<^verbatim>\<open>McpEnvInitError\<close>, \<^verbatim>\<open>McpEnvInitState\<close>, \<^verbatim>\<open>McpEnvInitEvent\<close>). A JavaScript string is
  a \<^typ>\<open>string\<close> whose characters stand for UTF-16 code units below 256; a JavaScript
  number holding a timestamp or an exit code is an \<^typ>\<open>int\<close>; an optional field is an
  \<^typ>\<open>'a option\<close>. The field \<^verbatim>\<open>done\<close> is called \<open>done_flag\<close> and the \<^verbatim>\<open>message\<close> of an
  error is called \<open>message_err\<close>, since the plain names are taken.
\<close>

datatype McpEnvInitStage =
    Idle | StartCheck | CheckUv | CheckBun | NeedInstall | NoNeedInstall
  | StartInstallUv | InstallingUv | StartInstallBun | InstallingBun | EnvReady | Failed

datatype McpEnvInitLogLevel = Info | Warn | Error

datatype LogSource = Uv | Bun | System

record McpEnvInitLog =
  ts :: int
  level :: McpEnvInitLogLevel
  message :: string
  source :: "LogSource option"

text \<open>\<^verbatim>\<open>exitCode?: number | null\<close>: \<open>None\<close> is an absent field, \<open>Some None\<close> is \<^verbatim>\<open>null\<close>.\<close>

record McpEnvInitError =
  message_err :: string
  command :: "string option"
  exitCode :: "int option option"
  stderrTail :: "string option"
  stdoutTail :: "string option"
  suggestion :: "string option"

record McpEnvInitState =
  stage :: McpEnvInitStage
  uvInstalled :: bool
  bunInstalled :: bool
  installing :: bool
  done_flag :: bool
  failed :: bool
  error :: "McpEnvInitError option"
  logs :: "McpEnvInitLog list"
  updatedAt :: int

datatype McpEnvInitEvent =
    StateEvent McpEnvInitState
  | LogEvent McpEnvInitLog
  | StageEvent McpEnvInitStage int

section \<open>Collaborators and the world the service runs in\<close>

text \<open>
  What the service takes from outside: the translation lookup \<^verbatim>\<open>t\<close>, the platform flag
  \<^verbatim>\<open>isWin\<close>, \<^verbatim>\<open>process.execPath\<close>, the location of a bundled script
  (\<^verbatim>\<open>path.join(getResourcePath(), 'scripts', name)\<close>) and the clock: \<open>dateNow e n\<close> is what the
  \<open>n\<close>-th call of \<^verbatim>\<open>Date.now()\<close> returns. Nothing is assumed about any of them.
\<close>

record env =
  tr :: "string \<Rightarrow> string"
  isWin :: bool
  execPath :: string
  scriptPath :: "string \<Rightarrow> string"
  dateNow :: "nat \<Rightarrow> int"

type_synonym sender = nat
type_synonym handle = nat

text \<open>
  The run is an \<^verbatim>\<open>async\<close> function: it is suspended at each \<^verbatim>\<open>await\<close> and resumed by the
  runtime. A suspended run is a task: the observer it emits to, the promise it settles and
  the \<^verbatim>\<open>await\<close> it waits at, with the local variables that are live there.
\<close>

datatype awaiting =
    AwaitUvx               \<comment> \<open>line 191, \<^verbatim>\<open>isBinaryExists('uvx')\<close>\<close>
  | AwaitUv                \<comment> \<open>line 191, \<^verbatim>\<open>isBinaryExists('uv')\<close>\<close>
  | AwaitBun bool          \<comment> \<open>line 200, with \<^verbatim>\<open>uvOk\<close>\<close>
  | AwaitSpawnUv bool      \<comment> \<open>line 269, with \<^verbatim>\<open>needBun\<close>\<close>
  | AwaitSpawnBun          \<comment> \<open>line 322\<close>
  | AwaitUvx2              \<comment> \<open>line 236, \<^verbatim>\<open>isBinaryExists('uvx')\<close>\<close>
  | AwaitUv2               \<comment> \<open>line 236, \<^verbatim>\<open>isBinaryExists('uv')\<close>\<close>
  | AwaitBun2 bool         \<comment> \<open>line 237, with \<^verbatim>\<open>uvOk2\<close>\<close>

record task =
  task_sender :: sender
  task_handle :: handle
  task_at :: awaiting

datatype collab_call = Probe string | Spawn string

text \<open>
  The service instance (\<open>state\<close>, \<open>running\<close>) together with the rest of the process: how
  often the clock was read, every \<^verbatim>\<open>emit\<close> in order with its observer, every call of a
  collaborator, the suspended runs, the settled promises (\<open>Inl\<close> a rejection with the thrown
  message, \<open>Inr\<close> the value it resolved with) and the next fresh promise.
\<close>

record world =
  state :: McpEnvInitState
  running :: "handle option"
  clockReads :: nat
  sent :: "(sender \<times> McpEnvInitEvent) list"
  calls :: "collab_call list"
  tasks :: "task list"
  settled :: "handle \<Rightarrow> (string + McpEnvInitState) option"
  nextHandle :: handle

section \<open>Module-level helpers\<close>

definition MAX_LOGS :: nat where
  "MAX_LOGS = 500"

definition TAIL_MAX :: nat where
  "TAIL_MAX = 4000"

definition tailText :: "string \<Rightarrow> nat \<Rightarrow> string" where
  "tailText text mx =
     (if text = [] then []
      else if length text > mx then drop (length text - mx) text else text)"

text \<open>\<^verbatim>\<open>String.prototype.toLowerCase\<close> on code units below 256.\<close>

definition toLowerCase_char :: "char \<Rightarrow> char" where
  "toLowerCase_char c =
     (let n = of_char c :: nat
      in if (65 \<le> n \<and> n \<le> 90) \<or> (192 \<le> n \<and> n \<le> 222 \<and> n \<noteq> 215)
         then char_of (n + 32) else c)"

definition toLowerCase :: "string \<Rightarrow> string" where
  "toLowerCase s = map toLowerCase_char s"

text \<open>\<^verbatim>\<open>s.includes(x)\<close>: \<open>x\<close> occurs in \<open>s\<close> as a contiguous run.\<close>

fun str_includes :: "string \<Rightarrow> string \<Rightarrow> bool" where
  "str_includes [] x = (x = [])"
| "str_includes (c # cs) x = (prefix x (c # cs) \<or> str_includes cs x)"

definition summarizeFailure :: "env \<Rightarrow> string \<Rightarrow> string \<Rightarrow> string option" where
  "summarizeFailure e stderr stdout =
     (let s = toLowerCase (stderr @ [CHR 0x0A] @ stdout)
      in if str_includes s ''enotfound'' \<or> str_includes s ''econnrefused''
            \<or> str_includes s ''etimedout'' \<or> str_includes s ''timed out''
            \<or> str_includes s ''network is unreachable'' \<or> str_includes s ''could not resolve''
         then Some (tr e ''mcp.envInit.errorSummary.networkIssue'')
         else if str_includes s ''certificate'' \<or> str_includes s ''self signed''
            \<or> str_includes s ''unable to get local issuer''
         then Some (tr e ''mcp.envInit.errorSummary.certificateIssue'')
         else if str_includes s ''eacces'' \<or> str_includes s ''eperm''
            \<or> str_includes s ''permission denied'' \<or> str_includes s ''access is denied''
         then Some (if isWin e then tr e ''mcp.envInit.errorSummary.permissionWindows''
                    else tr e ''mcp.envInit.errorSummary.permissionUnix'')
         else None)"

definition now :: "env \<Rightarrow> world \<Rightarrow> int \<times> world" where
  "now e w = (dateNow e (clockReads w), w\<lparr>clockReads := Suc (clockReads w)\<rparr>)"

definition defaultState :: "int \<Rightarrow> McpEnvInitState" where
  "defaultState t0 =
     \<lparr>stage = Idle, uvInstalled = False, bunInstalled = False, installing = False,
      done_flag = False, failed = False, error = None, logs = [], updatedAt = t0\<rparr>"

text \<open>The process after the module is loaded: the one service instance, nothing running.\<close>

definition init :: "env \<Rightarrow> world" where
  "init e =
     \<lparr>state = defaultState (dateNow e 0), running = None, clockReads = 1, sent = [],
      calls = [], tasks = [], settled = (\<lambda>_. None), nextHandle = 0\<rparr>"

section \<open>The service: events, logs, stages, failure\<close>

text \<open>
  \<^verbatim>\<open>sender.send\<close> serialises the event when it is called, so an emitted snapshot is the
  state as it is at that moment. A throwing \<^verbatim>\<open>send\<close> is caught inside \<^verbatim>\<open>emit\<close>; \<open>sent\<close>
  records the calls of \<^verbatim>\<open>emit\<close>.
\<close>

definition emit :: "sender \<Rightarrow> McpEnvInitEvent \<Rightarrow> world \<Rightarrow> world" where
  "emit s ev w = w\<lparr>sent := sent w @ [(s, ev)]\<rparr>"

definition emitState :: "sender \<Rightarrow> world \<Rightarrow> world" where
  "emitState s w = emit s (StateEvent (state w)) w"

text \<open>\<^verbatim>\<open>xs.slice(-n)\<close> on an array.\<close>

definition slice_last :: "nat \<Rightarrow> 'a list \<Rightarrow> 'a list" where
  "slice_last n xs = (if length xs > n then drop (length xs - n) xs else xs)"

definition pushLog ::
  "env \<Rightarrow> sender \<Rightarrow> McpEnvInitLogLevel \<Rightarrow> string \<Rightarrow> LogSource option \<Rightarrow> world \<Rightarrow> world" where
  "pushLog e s lv msg src w =
     (let (t1, w) = now e w;
          logEntry = \<lparr>ts = t1, level = lv, message = msg, source = src\<rparr>;
          w = w\<lparr>state := (state w)\<lparr>logs := slice_last MAX_LOGS (logs (state w) @ [logEntry])\<rparr>\<rparr>;
          (t2, w) = now e w;
          w = w\<lparr>state := (state w)\<lparr>updatedAt := t2\<rparr>\<rparr>;
          w = emit s (LogEvent logEntry) w
      in emitState s w)"

definition info :: "env \<Rightarrow> sender \<Rightarrow> string \<Rightarrow> LogSource option \<Rightarrow> world \<Rightarrow> world" where
  "info e s msg src w = pushLog e s Info msg src w"

definition warn :: "env \<Rightarrow> sender \<Rightarrow> string \<Rightarrow> LogSource option \<Rightarrow> world \<Rightarrow> world" where
  "warn e s msg src w = pushLog e s Warn msg src w"

definition error_log :: "env \<Rightarrow> sender \<Rightarrow> string \<Rightarrow> LogSource option \<Rightarrow> world \<Rightarrow> world" where
  "error_log e s msg src w = pushLog e s Error msg src w"

definition setStage :: "env \<Rightarrow> sender \<Rightarrow> McpEnvInitStage \<Rightarrow> world \<Rightarrow> world" where
  "setStage e s stg w =
     (let w = w\<lparr>state := (state w)\<lparr>stage := stg\<rparr>\<rparr>;
          (t1, w) = now e w;
          w = w\<lparr>state := (state w)\<lparr>updatedAt := t1\<rparr>\<rparr>;
          w = emit s (StageEvent stg (updatedAt (state w))) w
      in emitState s w)"

text \<open>A JavaScript string is truthy when it is present and not empty.\<close>

definition truthy :: "string option \<Rightarrow> bool" where
  "truthy x = (case x of None \<Rightarrow> False | Some v \<Rightarrow> v \<noteq> [])"

definition fail :: "env \<Rightarrow> sender \<Rightarrow> McpEnvInitError \<Rightarrow> world \<Rightarrow> world" where
  "fail e s err w =
     (let w = w\<lparr>state := (state w)\<lparr>failed := True\<rparr>\<rparr>;
          w = w\<lparr>state := (state w)\<lparr>done_flag := True\<rparr>\<rparr>;
          w = w\<lparr>state := (state w)\<lparr>installing := False\<rparr>\<rparr>;
          w = w\<lparr>state := (state w)\<lparr>error := Some err\<rparr>\<rparr>;
          w = w\<lparr>state := (state w)\<lparr>stage := Failed\<rparr>\<rparr>;
          (t1, w) = now e w;
          w = w\<lparr>state := (state w)\<lparr>updatedAt := t1\<rparr>\<rparr>;
          w = emitState s w;
          w = error_log e s (tr e ''mcp.envInit.messages.initFailed'' @ message_err err) (Some System) w
      in if truthy (suggestion err)
         then warn e s (tr e ''mcp.envInit.errors.suggestion'' @ the (suggestion err)) (Some System) w
         else w)"

section \<open>Streaming installer output\<close>

text \<open>\<^verbatim>\<open>chunk.split(/\r?\n/)\<close>: a line ends at a line feed, with the carriage return before it.\<close>

fun split_lines :: "string \<Rightarrow> string list" where
  "split_lines [] = [[]]"
| "split_lines [c] = (if c = CHR 0x0A then [[], []] else [[c]])"
| "split_lines (c # d # cs) =
     (if c = CHR 0x0A then [] # split_lines (d # cs)
      else if c = CHR 0x0D \<and> d = CHR 0x0A then [] # split_lines cs
      else (case split_lines (d # cs) of l # ls \<Rightarrow> (c # l) # ls | [] \<Rightarrow> [[c]]))"

text \<open>\<^verbatim>\<open>line.trim()\<close>: white space and line terminators among the code units below 256.\<close>

definition isWhiteSpace :: "char \<Rightarrow> bool" where
  "isWhiteSpace c = (of_char c \<in> {9, 10, 11, 12, 13, 32, 160 :: nat})"

definition trim :: "string \<Rightarrow> string" where
  "trim s = rev (dropWhile isWhiteSpace (rev (dropWhile isWhiteSpace s)))"

text \<open>
  The chunk callbacks of both installers: every line of the chunk that is not blank after
  trimming goes to \<open>lg\<close>, which is \<open>info\<close> for standard output and \<open>warn\<close> for standard
  error, with the installer's source tag.
\<close>

definition onChunk :: "(string \<Rightarrow> world \<Rightarrow> world) \<Rightarrow> string \<Rightarrow> world \<Rightarrow> world" where
  "onChunk lg chunk w =
     fold (\<lambda>line w. let msg = trim line in if msg \<noteq> [] then lg msg w else w)
          (split_lines chunk) w"

section \<open>The run\<close>

text \<open>
  Where a piece of the run stops: at an \<^verbatim>\<open>await\<close>, at \<^verbatim>\<open>return this.state\<close>, or with a
  thrown error (kept as its message).
\<close>

datatype outcome = Suspend awaiting | Return | Throw string

definition probe :: "string \<Rightarrow> world \<Rightarrow> world" where
  "probe name w = w\<lparr>calls := calls w @ [Probe name]\<rparr>"

definition spawn :: "string \<Rightarrow> world \<Rightarrow> world" where
  "spawn script w = w\<lparr>calls := calls w @ [Spawn script]\<rparr>"

definition uv_script :: "env \<Rightarrow> string" where
  "uv_script e = scriptPath e ''install-uv.js''"

definition bun_script :: "env \<Rightarrow> string" where
  "bun_script e = scriptPath e ''install-bun.js''"

definition command_of :: "env \<Rightarrow> string \<Rightarrow> string" where
  "command_of e script = execPath e @ '' '' @ script"

text \<open>\<^verbatim>\<open>[needUv ? 'uv' : null, needBun ? 'bun' : null].filter(Boolean).join(', ')\<close>\<close>

fun join :: "string \<Rightarrow> string list \<Rightarrow> string" where
  "join sep [] = []"
| "join sep [x] = x"
| "join sep (x # y # ys) = x @ sep @ join sep (y # ys)"

definition missing_tools :: "bool \<Rightarrow> bool \<Rightarrow> string" where
  "missing_tools needUv needBun =
     join '', '' (List.map_filter id
       [if needUv then Some ''uv'' else None, if needBun then Some ''bun'' else None])"

text \<open>Lines 188 to 191: the run up to its first \<^verbatim>\<open>await\<close>.\<close>

definition run_begin :: "env \<Rightarrow> sender \<Rightarrow> world \<Rightarrow> world \<times> outcome" where
  "run_begin e s w =
     (let w = setStage e s CheckUv w;
          w = info e s (tr e ''mcp.envInit.messages.checkingUv'') (Some Uv) w;
          w = probe ''uvx'' w
      in (w, Suspend AwaitUvx))"

text \<open>Lines 192 to 200, with \<^verbatim>\<open>uvOk\<close> known.\<close>

definition run_uv_checked :: "env \<Rightarrow> sender \<Rightarrow> bool \<Rightarrow> world \<Rightarrow> world \<times> outcome" where
  "run_uv_checked e s uvOk w =
     (let w = w\<lparr>state := (state w)\<lparr>uvInstalled := uvOk\<rparr>\<rparr>;
          w = emitState s w;
          w = info e s (if uvOk then tr e ''mcp.envInit.messages.uvInstalled''
                        else tr e ''mcp.envInit.messages.uvNotInstalled'') (Some Uv) w;
          w = setStage e s CheckBun w;
          w = info e s (tr e ''mcp.envInit.messages.checkingBun'') (Some Bun) w;
          w = probe ''bun'' w
      in (w, Suspend (AwaitBun uvOk)))"

text \<open>Lines 260 to 269 and 313 to 322: an installer up to the \<^verbatim>\<open>await\<close> of its process.\<close>

definition installUv_begin :: "env \<Rightarrow> sender \<Rightarrow> bool \<Rightarrow> world \<Rightarrow> world \<times> outcome" where
  "installUv_begin e s needBun w =
     (let w = setStage e s StartInstallUv w;
          w = warn e s (tr e ''mcp.envInit.messages.startInstallUv'') (Some Uv) w;
          w = setStage e s InstallingUv w;
          w = spawn (uv_script e) w
      in (w, Suspend (AwaitSpawnUv needBun)))"

definition installBun_begin :: "env \<Rightarrow> sender \<Rightarrow> world \<Rightarrow> world \<times> outcome" where
  "installBun_begin e s w =
     (let w = setStage e s StartInstallBun w;
          w = warn e s (tr e ''mcp.envInit.messages.startInstallBun'') (Some Bun) w;
          w = setStage e s InstallingBun w;
          w = spawn (bun_script e) w
      in (w, Suspend AwaitSpawnBun))"

text \<open>Lines 234 to 236: the re-check up to its first \<^verbatim>\<open>await\<close>.\<close>

definition recheck_begin :: "env \<Rightarrow> sender \<Rightarrow> world \<Rightarrow> world \<times> outcome" where
  "recheck_begin e s w =
     (let w = setStage e s StartCheck w;
          w = info e s (tr e ''mcp.envInit.messages.recheckAfterInstall'') (Some System) w;
          w = probe ''uvx'' w
      in (w, Suspend AwaitUvx2))"

text \<open>Lines 229 to 236: what follows the uv installer.\<close>

definition run_after_installUv :: "env \<Rightarrow> sender \<Rightarrow> bool \<Rightarrow> world \<Rightarrow> world \<times> outcome" where
  "run_after_installUv e s needBun w =
     (if needBun then installBun_begin e s w else recheck_begin e s w)"

text \<open>Lines 201 to 227, with \<^verbatim>\<open>uvOk\<close> and \<^verbatim>\<open>bunOk\<close> known.\<close>

definition run_bun_checked :: "env \<Rightarrow> sender \<Rightarrow> bool \<Rightarrow> bool \<Rightarrow> world \<Rightarrow> world \<times> outcome" where
  "run_bun_checked e s uvOk bunOk w =
     (let w = w\<lparr>state := (state w)\<lparr>bunInstalled := bunOk\<rparr>\<rparr>;
          w = emitState s w;
          w = info e s (if bunOk then tr e ''mcp.envInit.messages.bunInstalled''
                        else tr e ''mcp.envInit.messages.bunNotInstalled'') (Some Bun) w;
          needUv = \<not> uvOk;
          needBun = \<not> bunOk
      in if \<not> needUv \<and> \<not> needBun then
           (let w = setStage e s NoNeedInstall w;
                w = info e s (tr e ''mcp.envInit.messages.noNeedInstall'') (Some System) w;
                w = setStage e s EnvReady w;
                w = w\<lparr>state := (state w)\<lparr>done_flag := True\<rparr>\<rparr>;
                w = w\<lparr>state := (state w)\<lparr>installing := False\<rparr>\<rparr>;
                w = w\<lparr>state := (state w)\<lparr>failed := False\<rparr>\<rparr>;
                w = emitState s w
            in (w, Return))
         else
           (let w = setStage e s NeedInstall w;
                w = warn e s (tr e ''mcp.envInit.messages.needInstall'' @ missing_tools needUv needBun)
                      (Some System) w;
                w = w\<lparr>state := (state w)\<lparr>installing := True\<rparr>\<rparr>;
                w = emitState s w
            in if needUv then installUv_begin e s needBun w
               else run_after_installUv e s needBun w))"

text \<open>
  Lines 284 to 296: the rest of the \<^verbatim>\<open>try\<close> block of \<^verbatim>\<open>installUv\<close> once the process has
  ended; \<open>Some msg\<close> is \<^verbatim>\<open>throw new Error(msg)\<close>.
\<close>

definition installUv_try ::
  "env \<Rightarrow> sender \<Rightarrow> int option \<Rightarrow> string \<Rightarrow> string \<Rightarrow> world \<Rightarrow> world \<times> string option" where
  "installUv_try e s code stderr stdout w =
     (if code \<noteq> Some 0 then
        (fail e s \<lparr>message_err = tr e ''mcp.envInit.messages.uvInstallFailed'',
                   command = Some (command_of e (uv_script e)),
                   exitCode = Some code,
                   stderrTail = Some (tailText stderr TAIL_MAX),
                   stdoutTail = Some (tailText stdout TAIL_MAX),
                   suggestion = summarizeFailure e stderr stdout\<rparr> w,
         Some ''uv install failed'')
      else (info e s (tr e ''mcp.envInit.messages.uvInstallScriptCompleted'') (Some Uv) w, None))"

text \<open>Lines 297 to 309: the \<^verbatim>\<open>catch\<close> block of \<^verbatim>\<open>installUv\<close>; the caller rethrows.\<close>

definition installUv_catch :: "env \<Rightarrow> sender \<Rightarrow> string \<Rightarrow> world \<Rightarrow> world" where
  "installUv_catch e s msg w =
     (if \<not> failed (state w) then
        fail e s \<lparr>message_err = tr e ''mcp.envInit.messages.uvInstallException'' @ msg,
                  command = Some (command_of e (uv_script e)),
                  exitCode = None, stderrTail = None, stdoutTail = None,
                  suggestion = Some (if isWin e then tr e ''mcp.envInit.messages.checkPowerShellFirewall''
                                     else tr e ''mcp.envInit.messages.checkNetworkProxy'')\<rparr> w
      else w)"

definition installUv_exited ::
  "env \<Rightarrow> sender \<Rightarrow> bool \<Rightarrow> int option \<Rightarrow> string \<Rightarrow> string \<Rightarrow> world \<Rightarrow> world \<times> outcome" where
  "installUv_exited e s needBun code stderr stdout w =
     (case installUv_try e s code stderr stdout w of
        (w, Some thrown) \<Rightarrow> (installUv_catch e s thrown w, Throw thrown)
      | (w, None) \<Rightarrow> run_after_installUv e s needBun w)"

definition installUv_threw :: "env \<Rightarrow> sender \<Rightarrow> string \<Rightarrow> world \<Rightarrow> world \<times> outcome" where
  "installUv_threw e s thrown w = (installUv_catch e s thrown w, Throw thrown)"

text \<open>Lines 337 to 360: the same for \<^verbatim>\<open>installBun\<close>.\<close>

definition installBun_try ::
  "env \<Rightarrow> sender \<Rightarrow> int option \<Rightarrow> string \<Rightarrow> string \<Rightarrow> world \<Rightarrow> world \<times> string option" where
  "installBun_try e s code stderr stdout w =
     (if code \<noteq> Some 0 then
        (fail e s \<lparr>message_err = tr e ''mcp.envInit.messages.bunInstallFailed'',
                   command = Some (command_of e (bun_script e)),
                   exitCode = Some code,
                   stderrTail = Some (tailText stderr TAIL_MAX),
                   stdoutTail = Some (tailText stdout TAIL_MAX),
                   suggestion = summarizeFailure e stderr stdout\<rparr> w,
         Some ''bun install failed'')
      else (info e s (tr e ''mcp.envInit.messages.bunInstallScriptCompleted'') (Some Bun) w, None))"

definition installBun_catch :: "env \<Rightarrow> sender \<Rightarrow> string \<Rightarrow> world \<Rightarrow> world" where
  "installBun_catch e s msg w =
     (if \<not> failed (state w) then
        fail e s \<lparr>message_err = tr e ''mcp.envInit.messages.bunInstallException'' @ msg,
                  command = Some (command_of e (bun_script e)),
                  exitCode = None, stderrTail = None, stdoutTail = None,
                  suggestion = Some (if truthy (summarizeFailure e [] msg)
                                     then the (summarizeFailure e [] msg)
                                     else tr e ''mcp.envInit.messages.checkNetworkPermissionCert'')\<rparr> w
      else w)"

definition installBun_exited ::
  "env \<Rightarrow> sender \<Rightarrow> int option \<Rightarrow> string \<Rightarrow> string \<Rightarrow> world \<Rightarrow> world \<times> outcome" where
  "installBun_exited e s code stderr stdout w =
     (case installBun_try e s code stderr stdout w of
        (w, Some thrown) \<Rightarrow> (installBun_catch e s thrown w, Throw thrown)
      | (w, None) \<Rightarrow> recheck_begin e s w)"

definition installBun_threw :: "env \<Rightarrow> sender \<Rightarrow> string \<Rightarrow> world \<Rightarrow> world \<times> outcome" where
  "installBun_threw e s thrown w = (installBun_catch e s thrown w, Throw thrown)"

text \<open>Lines 238 to 256, with \<^verbatim>\<open>uvOk2\<close> and \<^verbatim>\<open>bunOk2\<close> known.\<close>

definition run_rechecked :: "env \<Rightarrow> sender \<Rightarrow> bool \<Rightarrow> bool \<Rightarrow> world \<Rightarrow> world \<times> outcome" where
  "run_rechecked e s uvOk2 bunOk2 w =
     (let w = w\<lparr>state := (state w)\<lparr>uvInstalled := uvOk2\<rparr>\<rparr>;
          w = w\<lparr>state := (state w)\<lparr>bunInstalled := bunOk2\<rparr>\<rparr>
      in if \<not> uvOk2 \<or> \<not> bunOk2 then
           (fail e s \<lparr>message_err = tr e ''mcp.envInit.messages.installScriptCompletedButRecheckFailed'',
                      command = None, exitCode = None, stderrTail = None, stdoutTail = None,
                      suggestion = Some (tr e ''mcp.envInit.messages.checkSecuritySoftware'')\<rparr> w,
            Return)
         else
           (let w = setStage e s EnvReady w;
                w = w\<lparr>state := (state w)\<lparr>done_flag := True\<rparr>\<rparr>;
                w = w\<lparr>state := (state w)\<lparr>failed := False\<rparr>\<rparr>;
                w = w\<lparr>state := (state w)\<lparr>installing := False\<rparr>\<rparr>;
                (t1, w) = now e w;
                w = w\<lparr>state := (state w)\<lparr>updatedAt := t1\<rparr>\<rparr>;
                w = emitState s w;
                w = info e s (tr e ''mcp.envInit.messages.initComplete'') (Some System) w
            in (w, Return)))"

section \<open>Suspension, resumption and settling\<close>

text \<open>
  What the runtime hands to a suspended run: the answer of a probe, a chunk of installer
  output (the chunk callbacks run while the run waits for the process), the end of the
  installer process with its exit code and captured standard error and standard output, or
  the failure to start it, with the thrown message.
\<close>

datatype input =
    ProbeResult bool
  | StdoutChunk string
  | StderrChunk string
  | SpawnExit "int option" string string
  | SpawnThrow string

fun resume :: "env \<Rightarrow> sender \<Rightarrow> awaiting \<Rightarrow> input \<Rightarrow> world \<Rightarrow> (world \<times> outcome) option" where
  "resume e s AwaitUvx (ProbeResult b) w =
     Some (if b then run_uv_checked e s True w else (probe ''uv'' w, Suspend AwaitUv))"
| "resume e s AwaitUv (ProbeResult b) w = Some (run_uv_checked e s b w)"
| "resume e s (AwaitBun uvOk) (ProbeResult b) w = Some (run_bun_checked e s uvOk b w)"
| "resume e s (AwaitSpawnUv needBun) (StdoutChunk c) w =
     Some (onChunk (\<lambda>msg. info e s msg (Some Uv)) c w, Suspend (AwaitSpawnUv needBun))"
| "resume e s (AwaitSpawnUv needBun) (StderrChunk c) w =
     Some (onChunk (\<lambda>msg. warn e s msg (Some Uv)) c w, Suspend (AwaitSpawnUv needBun))"
| "resume e s (AwaitSpawnUv needBun) (SpawnExit code stderr stdout) w =
     Some (installUv_exited e s needBun code stderr stdout w)"
| "resume e s (AwaitSpawnUv needBun) (SpawnThrow thrown) w = Some (installUv_threw e s thrown w)"
| "resume e s AwaitSpawnBun (StdoutChunk c) w =
     Some (onChunk (\<lambda>msg. info e s msg (Some Bun)) c w, Suspend AwaitSpawnBun)"
| "resume e s AwaitSpawnBun (StderrChunk c) w =
     Some (onChunk (\<lambda>msg. warn e s msg (Some Bun)) c w, Suspend AwaitSpawnBun)"
| "resume e s AwaitSpawnBun (SpawnExit code stderr stdout) w =
     Some (installBun_exited e s code stderr stdout w)"
| "resume e s AwaitSpawnBun (SpawnThrow thrown) w = Some (installBun_threw e s thrown w)"
| "resume e s AwaitUvx2 (ProbeResult b) w =
     Some (if b then (probe ''bun'' w, Suspend (AwaitBun2 True))
           else (probe ''uv'' w, Suspend AwaitUv2))"
| "resume e s AwaitUv2 (ProbeResult b) w = Some (probe ''bun'' w, Suspend (AwaitBun2 b))"
| "resume e s (AwaitBun2 uvOk2) (ProbeResult b) w = Some (run_rechecked e s uvOk2 b w)"
| "resume e s _ _ w = None"

text \<open>
  Lines 115 to 121, the \<^verbatim>\<open>.catch\<close> handler on the run: a rejection becomes a call of
  \<open>fail\<close> with the thrown message alone, and the handler returns \<^verbatim>\<open>this.state\<close>; a
  fulfilment passes through.
\<close>

definition start_catch ::
  "env \<Rightarrow> sender \<Rightarrow> string + McpEnvInitState \<Rightarrow> world \<Rightarrow> (string + McpEnvInitState) \<times> world" where
  "start_catch e s r w =
     (case r of
        Inl msg \<Rightarrow>
          (let w = fail e s \<lparr>message_err = msg, command = None, exitCode = None,
                             stderrTail = None, stdoutTail = None, suggestion = None\<rparr> w
           in (Inr (state w), w))
      | Inr st \<Rightarrow> (Inr st, w))"

text \<open>Lines 122 to 124, the \<^verbatim>\<open>.finally\<close> handler: the settlement passes through.\<close>

definition start_finally ::
  "string + McpEnvInitState \<Rightarrow> world \<Rightarrow> (string + McpEnvInitState) \<times> world" where
  "start_finally r w = (r, w\<lparr>running := None\<rparr>)"

text \<open>
  The run of task \<open>t\<close> has ended with \<open>r\<close>: the two handlers run, the promise held in
  \<^verbatim>\<open>this.running\<close> is settled and the task is gone. The handlers are promise reactions
  queued by the run's own return, so no other call of the service comes in between.
\<close>

definition finish :: "env \<Rightarrow> task \<Rightarrow> string + McpEnvInitState \<Rightarrow> world \<Rightarrow> world" where
  "finish e t r w =
     (let (r, w) = start_catch e (task_sender t) r w;
          (r, w) = start_finally r w
      in w\<lparr>settled := (settled w)(task_handle t \<mapsto> r),
            tasks := filter (\<lambda>t'. task_handle t' \<noteq> task_handle t) (tasks w)\<rparr>)"

definition proceed :: "env \<Rightarrow> task \<Rightarrow> world \<times> outcome \<Rightarrow> world" where
  "proceed e t r =
     (case r of
        (w, Suspend a) \<Rightarrow>
          w\<lparr>tasks := map (\<lambda>t'. if task_handle t' = task_handle t then t'\<lparr>task_at := a\<rparr> else t')
                          (tasks w)\<rparr>
      | (w, Return) \<Rightarrow> finish e t (Inr (state w)) w
      | (w, Throw msg) \<Rightarrow> finish e t (Inl msg) w)"

section \<open>The public operations\<close>

definition getState :: "world \<Rightarrow> McpEnvInitState" where
  "getState w = state w"

text \<open>
  \<^verbatim>\<open>start\<close> is \<^verbatim>\<open>async\<close>: its promise is resolved at once with a state (\<open>Resolved\<close>) or
  follows the promise held in \<^verbatim>\<open>this.running\<close> (\<open>Pending\<close>).
\<close>

datatype start_result = Resolved McpEnvInitState | Pending handle

definition start :: "env \<Rightarrow> sender \<Rightarrow> world \<Rightarrow> start_result \<times> world" where
  "start e s w =
     (if done_flag (state w) \<and> \<not> failed (state w) \<and> uvInstalled (state w) \<and> bunInstalled (state w)
      then (let w = emitState s w in (Resolved (state w), w))
      else if running w \<noteq> None
      then (let w = emitState s w in (Pending (the (running w)), w))
      else
        (let (t0, w) = now e w;
             w = w\<lparr>state := (state w)\<lparr>failed := False, done_flag := False, error := None,
                                        installing := False, updatedAt := t0\<rparr>\<rparr>;
             w = setStage e s StartCheck w;
             w = info e s (tr e ''mcp.envInit.messages.startCheck'') (Some System) w;
             (w, out) = run_begin e s w;
             h = nextHandle w;
             t = \<lparr>task_sender = s, task_handle = h, task_at = AwaitUvx\<rparr>;
             w = w\<lparr>running := Some h, nextHandle := Suc h, tasks := tasks w @ [t]\<rparr>
         in (Pending h, proceed e t (w, out))))"

section \<open>Executions\<close>

text \<open>
  What can happen to the service: somebody calls \<^verbatim>\<open>start\<close>, or the runtime resumes the
  run that settles promise \<open>h\<close>. A step that is not possible (no such run, or not what the
  run waits for) is \<open>None\<close>.
\<close>

datatype action = CallStart sender | Deliver handle input

fun step :: "env \<Rightarrow> action \<Rightarrow> world \<Rightarrow> world option" where
  "step e (CallStart s) w = Some (snd (start e s w))"
| "step e (Deliver h i) w =
     (case find (\<lambda>t. task_handle t = h) (tasks w) of
        None \<Rightarrow> None
      | Some t \<Rightarrow>
          (case resume e (task_sender t) (task_at t) i w of
             None \<Rightarrow> None
           | Some r \<Rightarrow> Some (proceed e t r)))"

fun execute :: "env \<Rightarrow> action list \<Rightarrow> world \<Rightarrow> world option" where
  "execute e [] w = Some w"
| "execute e (a # as) w = (case step e a w of None \<Rightarrow> None | Some w' \<Rightarrow> execute e as w')"

section \<open>Observations and invariants\<close>

text \<open>
  What an observer sees of a sequence of emitted events: the snapshots in order, and the
  stages announced by the stage events in order.
\<close>

fun snapshots :: "(sender \<times> McpEnvInitEvent) list \<Rightarrow> McpEnvInitState list" where
  "snapshots [] = []"
| "snapshots ((s, StateEvent st) # evs) = st # snapshots evs"
| "snapshots (_ # evs) = snapshots evs"

fun stage_events :: "(sender \<times> McpEnvInitEvent) list \<Rightarrow> McpEnvInitStage list" where
  "stage_events [] = []"
| "stage_events ((s, StageEvent x at) # evs) = x # stage_events evs"
| "stage_events (_ # evs) = stage_events evs"

text \<open>
  Every stage event is followed at once by a snapshot for the same observer whose stage is
  the announced one.
\<close>

fun stage_ok :: "(sender \<times> McpEnvInitEvent) list \<Rightarrow> bool" where
  "stage_ok [] = True"
| "stage_ok ((s, StageEvent x at) # evs) =
     (case evs of
        (s', StateEvent st) # _ \<Rightarrow> s' = s \<and> stage st = x \<and> stage_ok evs
      | _ \<Rightarrow> False)"
| "stage_ok (_ # evs) = stage_ok evs"

text \<open>The invariant of the state record, as the data model states it.\<close>

definition state_invariant :: "McpEnvInitState \<Rightarrow> bool" where
  "state_invariant st =
     ((done_flag st \<longrightarrow> (failed st \<noteq> (uvInstalled st \<and> bunInstalled st)))
      \<and> (installing st \<longrightarrow> \<not> done_flag st)
      \<and> ((error st \<noteq> None) = failed st))"

text \<open>The condition of the short-circuit at the head of \<^verbatim>\<open>start\<close>.\<close>

definition env_ready :: "McpEnvInitState \<Rightarrow> bool" where
  "env_ready st = (done_flag st \<and> \<not> failed st \<and> uvInstalled st \<and> bunInstalled st)"

text \<open>
  A well-formed event sequence: every snapshot satisfies the invariant, stage events are
  followed by their snapshot, and no stage event announces \<open>Failed\<close>.
\<close>

definition trace_ok :: "(sender \<times> McpEnvInitEvent) list \<Rightarrow> bool" where
  "trace_ok evs =
     (list_all state_invariant (snapshots evs) \<and> stage_ok evs \<and> Failed \<notin> set (stage_events evs))"

text \<open>What holds of the state while a run is suspended, at each \<^verbatim>\<open>await\<close>.\<close>

definition in_progress :: "McpEnvInitState \<Rightarrow> bool" where
  "in_progress st = (\<not> done_flag st \<and> \<not> failed st \<and> error st = None)"

fun awaiting_ok :: "awaiting \<Rightarrow> McpEnvInitState \<Rightarrow> bool" where
  "awaiting_ok (AwaitBun uvOk) st = (in_progress st \<and> uvInstalled st = uvOk)"
| "awaiting_ok (AwaitSpawnUv needBun) st =
     (in_progress st \<and> \<not> uvInstalled st \<and> (needBun \<longrightarrow> \<not> bunInstalled st))"
| "awaiting_ok AwaitSpawnBun st = (in_progress st \<and> \<not> bunInstalled st)"
| "awaiting_ok _ st = in_progress st"

fun outcome_ok :: "outcome \<Rightarrow> McpEnvInitState \<Rightarrow> bool" where
  "outcome_ok (Suspend a) st = awaiting_ok a st"
| "outcome_ok Return st = done_flag st"
| "outcome_ok (Throw msg) st = (done_flag st \<and> failed st)"

text \<open>A piece of the run leaves the promises and the tasks alone.\<close>

definition keeps :: "world \<Rightarrow> world \<Rightarrow> bool" where
  "keeps w w' =
     (running w' = running w \<and> tasks w' = tasks w \<and> settled w' = settled w
      \<and> nextHandle w' = nextHandle w)"

definition piece_ok :: "world \<Rightarrow> world \<times> outcome \<Rightarrow> bool" where
  "piece_ok w r =
     (keeps w (fst r) \<and> state_invariant (state (fst r)) \<and> trace_ok (sent (fst r))
      \<and> outcome_ok (snd r) (state (fst r)))"

text \<open>
  The invariant of the whole process: at most one run exists, it is the one whose promise
  \<^verbatim>\<open>this.running\<close> holds, and every settled promise is resolved with a terminal state.
\<close>

definition tasks_ok :: "world \<Rightarrow> bool" where
  "tasks_ok w =
     (case tasks w of
        [] \<Rightarrow> running w = None
      | [t] \<Rightarrow> running w = Some (task_handle t) \<and> task_handle t < nextHandle w
               \<and> settled w (task_handle t) = None \<and> awaiting_ok (task_at t) (state w)
      | _ \<Rightarrow> False)"

definition settled_ok :: "world \<Rightarrow> bool" where
  "settled_ok w =
     (\<forall>h r. settled w h = Some r \<longrightarrow> h < nextHandle w \<and> (\<exists>st. r = Inr st \<and> done_flag st))"

definition world_ok :: "world \<Rightarrow> bool" where
  "world_ok w = (state_invariant (state w) \<and> trace_ok (sent w) \<and> settled_ok w \<and> tasks_ok w)"

text \<open>
  A series of log appends, and the entries it creates: the \<open>i\<close>-th append reads the clock
  twice, first for the entry's time stamp.
\<close>

fun pushLogs ::
  "env \<Rightarrow> sender \<Rightarrow> (McpEnvInitLogLevel \<times> string \<times> LogSource option) list \<Rightarrow> world \<Rightarrow> world" where
  "pushLogs e s [] w = w"
| "pushLogs e s ((lv, msg, src) # rs) w = pushLogs e s rs (pushLog e s lv msg src w)"

fun log_entries ::
  "env \<Rightarrow> nat \<Rightarrow> (McpEnvInitLogLevel \<times> string \<times> LogSource option) list \<Rightarrow> McpEnvInitLog list" where
  "log_entries e n [] = []"
| "log_entries e n ((lv, msg, src) # rs) =
     \<lparr>ts = dateNow e n, level = lv, message = msg, source = src\<rparr> # log_entries e (Suc (Suc n)) rs"

text \<open>
  A concrete environment for the examples: no translations are loaded (so \<^verbatim>\<open>t\<close> returns
  its key), the platform is Windows, and the clock advances by one at every reading.
\<close>

definition demo_env :: env where
  "demo_env =
     \<lparr>tr = (\<lambda>key. key), isWin = True, execPath = ''node'',
      scriptPath = (\<lambda>name. ''/res/scripts/'' @ name), dateNow = (\<lambda>n. int n)\<rparr>"

text \<open>Both tools are found at the first start of observer 7.\<close>

definition both_present :: "action list" where
  "both_present = [CallStart 7, Deliver 0 (ProbeResult True), Deliver 0 (ProbeResult True)]"

text \<open>Neither alias of uv is found, bun is; the uv installer is started.\<close>

definition uv_missing :: "action list" where
  "uv_missing =
     [CallStart 7, Deliver 0 (ProbeResult False), Deliver 0 (ProbeResult False),
      Deliver 0 (ProbeResult True)]"

text \<open>Then the uv installer exits with code 1.\<close>

definition uv_exit_1 :: "action list" where
  "uv_exit_1 = uv_missing @ [Deliver 0 (SpawnExit (Some 1) ''boom'' ''out'')]"

text \<open>uv is found, bun is not; the bun installer is started.\<close>

definition bun_missing :: "action list" where
  "bun_missing = [CallStart 7, Deliver 0 (ProbeResult True), Deliver 0 (ProbeResult False)]"

text \<open>Then the bun installer cannot be started.\<close>

definition bun_spawn_fails :: "action list" where
  "bun_spawn_fails = bun_missing @ [Deliver 0 (SpawnThrow ''spawn ENOENT'')]"

text \<open>
  Reading an event sequence from a known stage: a stage event must be followed at once by
  its snapshot, and a snapshot that no stage event announces must keep the stage or show
  \<open>Failed\<close>. The result is the stage at the end, or \<open>None\<close> when the sequence breaks this.
\<close>

fun follow_stages ::
  "McpEnvInitStage option \<Rightarrow> (sender \<times> McpEnvInitEvent) list \<Rightarrow> McpEnvInitStage option" where
  "follow_stages None evs = None"
| "follow_stages (Some cur) [] = Some cur"
| "follow_stages (Some cur) ((s, StageEvent x at) # evs) =
     (case evs of
        (s', StateEvent st) # evs' \<Rightarrow>
          if s' = s \<and> stage st = x then follow_stages (Some x) evs' else None
      | _ \<Rightarrow> None)"
| "follow_stages (Some cur) ((s, StateEvent st) # evs) =
     (if stage st = cur \<or> stage st = Failed then follow_stages (Some (stage st)) evs else None)"
| "follow_stages (Some cur) ((s, LogEvent l) # evs) = follow_stages (Some cur) evs"

text \<open>The events emitted so far lead from \<open>Idle\<close> to the stage the state is in.\<close>

definition stages_followed :: "world \<Rightarrow> bool" where
  "stages_followed w = (follow_stages (Some Idle) (sent w) = Some (stage (state w)))"

text \<open>A failure detail with a suggestion, for the examples.\<close>

definition demo_error :: McpEnvInitError where
  "demo_error =
     \<lparr>message_err = ''recheck failed'', command = None, exitCode = None, stderrTail = None,
      stdoutTail = None, suggestion = Some ''check security software''\<rparr>"

section \<open>Effects of the primitives\<close>

text \<open>
  How each primitive of the service changes the fields of the world, and that it keeps an
  event sequence well formed. The later proofs use these facts and do not unfold the
  primitives again.
\<close>

lemma snapshots_append [simp]: "snapshots (xs @ ys) = snapshots xs @ snapshots ys"
  by (induction xs rule: snapshots.induct) simp_all

lemma stage_events_append [simp]: "stage_events (xs @ ys) = stage_events xs @ stage_events ys"
  by (induction xs rule: stage_events.induct) simp_all

lemma stage_ok_append: "stage_ok xs \<Longrightarrow> stage_ok ys \<Longrightarrow> stage_ok (xs @ ys)"
  by (induction xs rule: stage_ok.induct)
     (auto split: prod.splits McpEnvInitEvent.splits list.splits)

subsection \<open>Primitives\<close>

lemma emit_fields [simp]:
  "state (emit s ev w) = state w"
  "running (emit s ev w) = running w"
  "clockReads (emit s ev w) = clockReads w"
  "calls (emit s ev w) = calls w"
  "tasks (emit s ev w) = tasks w"
  "settled (emit s ev w) = settled w"
  "nextHandle (emit s ev w) = nextHandle w"
  "sent (emit s ev w) = sent w @ [(s, ev)]"
  by (simp_all add: emit_def)

lemma emitState_fields [simp]:
  "state (emitState s w) = state w"
  "running (emitState s w) = running w"
  "clockReads (emitState s w) = clockReads w"
  "calls (emitState s w) = calls w"
  "tasks (emitState s w) = tasks w"
  "settled (emitState s w) = settled w"
  "nextHandle (emitState s w) = nextHandle w"
  by (simp_all add: emitState_def)

lemma emitState_sent: "sent (emitState s w) = sent w @ [(s, StateEvent (state w))]"
  by (simp add: emitState_def)

lemma probe_fields [simp]:
  "state (probe n w) = state w"
  "running (probe n w) = running w"
  "clockReads (probe n w) = clockReads w"
  "calls (probe n w) = calls w @ [Probe n]"
  "tasks (probe n w) = tasks w"
  "settled (probe n w) = settled w"
  "nextHandle (probe n w) = nextHandle w"
  "sent (probe n w) = sent w"
  by (simp_all add: probe_def)

lemma spawn_fields [simp]:
  "state (spawn n w) = state w"
  "running (spawn n w) = running w"
  "clockReads (spawn n w) = clockReads w"
  "calls (spawn n w) = calls w @ [Spawn n]"
  "tasks (spawn n w) = tasks w"
  "settled (spawn n w) = settled w"
  "nextHandle (spawn n w) = nextHandle w"
  "sent (spawn n w) = sent w"
  by (simp_all add: spawn_def)

lemma pushLog_state:
  "state (pushLog e s lv msg src w) =
     (state w)\<lparr>logs := slice_last MAX_LOGS (logs (state w) @
                  [\<lparr>ts = dateNow e (clockReads w), level = lv, message = msg, source = src\<rparr>]),
               updatedAt := dateNow e (Suc (clockReads w))\<rparr>"
  by (simp add: pushLog_def now_def Let_def emitState_def)

lemma pushLog_sent:
  "sent (pushLog e s lv msg src w) =
     sent w @ [(s, LogEvent \<lparr>ts = dateNow e (clockReads w), level = lv, message = msg, source = src\<rparr>),
               (s, StateEvent (state (pushLog e s lv msg src w)))]"
  by (simp add: pushLog_def now_def Let_def emitState_def)

lemma pushLog_fields [simp]:
  "running (pushLog e s lv msg src w) = running w"
  "clockReads (pushLog e s lv msg src w) = Suc (Suc (clockReads w))"
  "calls (pushLog e s lv msg src w) = calls w"
  "tasks (pushLog e s lv msg src w) = tasks w"
  "settled (pushLog e s lv msg src w) = settled w"
  "nextHandle (pushLog e s lv msg src w) = nextHandle w"
  by (simp_all add: pushLog_def now_def Let_def)

lemma pushLog_flags [simp]:
  "stage (state (pushLog e s lv msg src w)) = stage (state w)"
  "uvInstalled (state (pushLog e s lv msg src w)) = uvInstalled (state w)"
  "bunInstalled (state (pushLog e s lv msg src w)) = bunInstalled (state w)"
  "installing (state (pushLog e s lv msg src w)) = installing (state w)"
  "done_flag (state (pushLog e s lv msg src w)) = done_flag (state w)"
  "failed (state (pushLog e s lv msg src w)) = failed (state w)"
  "error (state (pushLog e s lv msg src w)) = error (state w)"
  by (simp_all add: pushLog_state)

lemma setStage_state:
  "state (setStage e s x w) = (state w)\<lparr>stage := x, updatedAt := dateNow e (clockReads w)\<rparr>"
  by (simp add: setStage_def now_def Let_def)

lemma setStage_sent:
  "sent (setStage e s x w) =
     sent w @ [(s, StageEvent x (updatedAt (state (setStage e s x w)))),
               (s, StateEvent (state (setStage e s x w)))]"
  by (simp add: setStage_def now_def Let_def emitState_def)

lemma setStage_fields [simp]:
  "running (setStage e s x w) = running w"
  "clockReads (setStage e s x w) = Suc (clockReads w)"
  "calls (setStage e s x w) = calls w"
  "tasks (setStage e s x w) = tasks w"
  "settled (setStage e s x w) = settled w"
  "nextHandle (setStage e s x w) = nextHandle w"
  by (simp_all add: setStage_def now_def Let_def)

lemma setStage_flags [simp]:
  "stage (state (setStage e s x w)) = x"
  "uvInstalled (state (setStage e s x w)) = uvInstalled (state w)"
  "bunInstalled (state (setStage e s x w)) = bunInstalled (state w)"
  "installing (state (setStage e s x w)) = installing (state w)"
  "done_flag (state (setStage e s x w)) = done_flag (state w)"
  "failed (state (setStage e s x w)) = failed (state w)"
  "error (state (setStage e s x w)) = error (state w)"
  "logs (state (setStage e s x w)) = logs (state w)"
  by (simp_all add: setStage_state)

lemma log_fields [simp]:
  "info e s msg src w = pushLog e s Info msg src w"
  "warn e s msg src w = pushLog e s Warn msg src w"
  "error_log e s msg src w = pushLog e s Error msg src w"
  by (simp_all add: info_def warn_def error_log_def)

lemma fail_fields [simp]:
  "running (fail e s err w) = running w"
  "calls (fail e s err w) = calls w"
  "tasks (fail e s err w) = tasks w"
  "settled (fail e s err w) = settled w"
  "nextHandle (fail e s err w) = nextHandle w"
  by (simp_all add: fail_def now_def Let_def)

lemma fail_flags [simp]:
  "stage (state (fail e s err w)) = Failed"
  "uvInstalled (state (fail e s err w)) = uvInstalled (state w)"
  "bunInstalled (state (fail e s err w)) = bunInstalled (state w)"
  "installing (state (fail e s err w)) = False"
  "done_flag (state (fail e s err w)) = True"
  "failed (state (fail e s err w)) = True"
  "error (state (fail e s err w)) = Some err"
  by (simp_all add: fail_def now_def Let_def)

lemma state_invariant_upd [simp]:
  "state_invariant (st\<lparr>logs := l\<rparr>) = state_invariant st"
  "state_invariant (st\<lparr>updatedAt := u\<rparr>) = state_invariant st"
  "state_invariant (st\<lparr>stage := x\<rparr>) = state_invariant st"
  by (simp_all add: state_invariant_def)

lemma state_invariant_prims [simp]:
  "state_invariant (state (pushLog e s lv msg src w)) = state_invariant (state w)"
  "state_invariant (state (setStage e s x w)) = state_invariant (state w)"
  by (simp_all add: pushLog_state setStage_state)

lemma state_invariant_fail [simp]:
  "state_invariant (state (fail e s err w)) = (\<not> (uvInstalled (state w) \<and> bunInstalled (state w)))"
  by (simp add: state_invariant_def)

lemma in_progress_prims [simp]:
  "in_progress (state (pushLog e s lv msg src w)) = in_progress (state w)"
  "in_progress (state (setStage e s x w)) = in_progress (state w)"
  by (simp_all add: in_progress_def)

lemma trace_ok_snoc_state:
  "trace_ok evs \<Longrightarrow> state_invariant st \<Longrightarrow> trace_ok (evs @ [(s, StateEvent st)])"
  by (simp add: trace_ok_def stage_ok_append)

lemma trace_ok_snoc_log:
  "trace_ok evs \<Longrightarrow> state_invariant st \<Longrightarrow> trace_ok (evs @ [(s, LogEvent l), (s, StateEvent st)])"
  by (simp add: trace_ok_def stage_ok_append)

lemma trace_ok_snoc_stage:
  "trace_ok evs \<Longrightarrow> state_invariant st \<Longrightarrow> stage st = x \<Longrightarrow> x \<noteq> Failed
     \<Longrightarrow> trace_ok (evs @ [(s, StageEvent x at), (s, StateEvent st)])"
  by (simp add: trace_ok_def stage_ok_append)

lemma trace_ok_emitState [simp]:
  "trace_ok (sent w) \<Longrightarrow> state_invariant (state w) \<Longrightarrow> trace_ok (sent (emitState s w))"
  by (simp add: emitState_sent trace_ok_snoc_state)

lemma trace_ok_pushLog [simp]:
  "trace_ok (sent w) \<Longrightarrow> state_invariant (state w) \<Longrightarrow> trace_ok (sent (pushLog e s lv msg src w))"
  by (simp add: pushLog_sent trace_ok_snoc_log)

lemma trace_ok_setStage [simp]:
  "trace_ok (sent w) \<Longrightarrow> state_invariant (state w) \<Longrightarrow> x \<noteq> Failed
     \<Longrightarrow> trace_ok (sent (setStage e s x w))"
  by (simp add: setStage_sent trace_ok_snoc_stage)

lemma trace_ok_fail [simp]:
  "trace_ok (sent w) \<Longrightarrow> \<not> (uvInstalled (state w) \<and> bunInstalled (state w))
     \<Longrightarrow> trace_ok (sent (fail e s err w))"
proof -
  assume tr: "trace_ok (sent w)" and nb: "\<not> (uvInstalled (state w) \<and> bunInstalled (state w))"
  define w1 where "w1 = emitState s (w\<lparr>clockReads := Suc (clockReads w),
      state := (state w)\<lparr>failed := True, done_flag := True, installing := False,
                 error := Some err, stage := Failed, updatedAt := dateNow e (clockReads w)\<rparr>\<rparr>)"
  have si: "state_invariant (state w1)"
    using nb by (simp add: w1_def state_invariant_def)
  have t1: "trace_ok (sent w1)"
    using tr nb by (simp add: w1_def state_invariant_def)
  have "fail e s err w =
          (let w2 = pushLog e s Error (tr e ''mcp.envInit.messages.initFailed'' @ message_err err) (Some System) w1
           in if truthy (suggestion err)
              then pushLog e s Warn (tr e ''mcp.envInit.errors.suggestion'' @ the (suggestion err)) (Some System) w2
              else w2)"
    by (simp add: fail_def now_def Let_def w1_def)
  then show ?thesis
    using si t1 by (simp add: Let_def)
qed

subsection \<open>Pieces of the run\<close>

text \<open>
  Each piece of the run, started in a state that satisfies what holds at its \<^verbatim>\<open>await\<close>,
  leaves promises and tasks alone, keeps the invariant of the state and of the events, and
  stops in a state that fits how it stops.
\<close>

lemma keeps_refl [simp]: "keeps w w"
  by (simp add: keeps_def)

lemma run_begin_ok:
  "state_invariant (state w) \<Longrightarrow> trace_ok (sent w) \<Longrightarrow> in_progress (state w)
     \<Longrightarrow> piece_ok w (run_begin e s w)"
  by (simp add: piece_ok_def run_begin_def keeps_def)

lemma run_uv_checked_ok:
  "state_invariant (state w) \<Longrightarrow> trace_ok (sent w) \<Longrightarrow> in_progress (state w)
     \<Longrightarrow> piece_ok w (run_uv_checked e s uvOk w)"
  by (simp add: piece_ok_def run_uv_checked_def keeps_def in_progress_def state_invariant_def)

lemma installUv_begin_ok:
  "state_invariant (state w) \<Longrightarrow> trace_ok (sent w) \<Longrightarrow> in_progress (state w)
     \<Longrightarrow> \<not> uvInstalled (state w) \<Longrightarrow> (needBun \<longrightarrow> \<not> bunInstalled (state w))
     \<Longrightarrow> piece_ok w (installUv_begin e s needBun w)"
  by (simp add: piece_ok_def installUv_begin_def keeps_def)

lemma installBun_begin_ok:
  "state_invariant (state w) \<Longrightarrow> trace_ok (sent w) \<Longrightarrow> in_progress (state w)
     \<Longrightarrow> \<not> bunInstalled (state w)
     \<Longrightarrow> piece_ok w (installBun_begin e s w)"
  by (simp add: piece_ok_def installBun_begin_def keeps_def)

lemma recheck_begin_ok:
  "state_invariant (state w) \<Longrightarrow> trace_ok (sent w) \<Longrightarrow> in_progress (state w)
     \<Longrightarrow> piece_ok w (recheck_begin e s w)"
  by (simp add: piece_ok_def recheck_begin_def keeps_def)

lemma run_after_installUv_ok:
  "state_invariant (state w) \<Longrightarrow> trace_ok (sent w) \<Longrightarrow> in_progress (state w)
     \<Longrightarrow> (needBun \<longrightarrow> \<not> bunInstalled (state w))
     \<Longrightarrow> piece_ok w (run_after_installUv e s needBun w)"
  by (simp add: run_after_installUv_def installBun_begin_ok recheck_begin_ok)

lemma piece_ok_trans:
  "keeps w w1 \<Longrightarrow> piece_ok w1 r \<Longrightarrow> piece_ok w r"
  by (simp add: piece_ok_def keeps_def)

lemma run_bun_checked_ok:
  assumes "state_invariant (state w)" "trace_ok (sent w)" "in_progress (state w)"
    and "uvInstalled (state w) = uvOk"
  shows "piece_ok w (run_bun_checked e s uvOk bunOk w)"
proof (cases "uvOk \<and> bunOk")
  case True
  with assms show ?thesis
    by (simp add: piece_ok_def run_bun_checked_def keeps_def in_progress_def state_invariant_def Let_def)
next
  case False
  define w1 where "w1 = emitState s
     ((warn e s (tr e ''mcp.envInit.messages.needInstall'' @ missing_tools (\<not> uvOk) (\<not> bunOk)) (Some System)
        (setStage e s NeedInstall
          (info e s (if bunOk then tr e ''mcp.envInit.messages.bunInstalled''
                     else tr e ''mcp.envInit.messages.bunNotInstalled'') (Some Bun)
            (emitState s (w\<lparr>state := (state w)\<lparr>bunInstalled := bunOk\<rparr>\<rparr>)))))
       \<lparr>state := (state (warn e s (tr e ''mcp.envInit.messages.needInstall'' @ missing_tools (\<not> uvOk) (\<not> bunOk)) (Some System)
        (setStage e s NeedInstall
          (info e s (if bunOk then tr e ''mcp.envInit.messages.bunInstalled''
                     else tr e ''mcp.envInit.messages.bunNotInstalled'') (Some Bun)
            (emitState s (w\<lparr>state := (state w)\<lparr>bunInstalled := bunOk\<rparr>\<rparr>))))))\<lparr>installing := True\<rparr>\<rparr>)"
  have k: "keeps w w1"
    by (simp add: w1_def keeps_def)
  have p: "in_progress (state w1)" "uvInstalled (state w1) = uvOk" "bunInstalled (state w1) = bunOk"
    using assms by (simp_all add: w1_def in_progress_def)
  have si: "state_invariant (state w1)"
    using p by (simp add: state_invariant_def in_progress_def)
  have tr: "trace_ok (sent w1)"
    using assms by (simp add: w1_def in_progress_def state_invariant_def)
  have eq: "run_bun_checked e s uvOk bunOk w =
      (if \<not> uvOk then installUv_begin e s (\<not> bunOk) w1 else run_after_installUv e s (\<not> bunOk) w1)"
    using False by (simp add: run_bun_checked_def w1_def Let_def)
  show ?thesis
  proof (cases uvOk)
    case True
    with False have "\<not> bunOk" by simp
    with True eq si tr p k show ?thesis
      by (auto intro!: piece_ok_trans [OF k] run_after_installUv_ok)
  next
    case False
    with eq si tr p k show ?thesis
      by (auto intro!: piece_ok_trans [OF k] installUv_begin_ok)
  qed
qed

lemma installUv_exited_ok:
  assumes "state_invariant (state w)" "trace_ok (sent w)" "in_progress (state w)"
    and "\<not> uvInstalled (state w)" "needBun \<longrightarrow> \<not> bunInstalled (state w)"
  shows "piece_ok w (installUv_exited e s needBun code stderr stdout w)"
proof (cases "code = Some 0")
  case True
  have "piece_ok (info e s (tr e ''mcp.envInit.messages.uvInstallScriptCompleted'') (Some Uv) w)
          (run_after_installUv e s needBun
             (info e s (tr e ''mcp.envInit.messages.uvInstallScriptCompleted'') (Some Uv) w))"
    using assms by (intro run_after_installUv_ok) simp_all
  then have "piece_ok w (run_after_installUv e s needBun
             (info e s (tr e ''mcp.envInit.messages.uvInstallScriptCompleted'') (Some Uv) w))"
    by (rule piece_ok_trans [rotated]) (simp add: keeps_def)
  with True show ?thesis
    by (simp add: installUv_exited_def installUv_try_def)
next
  case False
  with assms show ?thesis
    by (simp add: installUv_exited_def installUv_try_def installUv_catch_def piece_ok_def keeps_def)
qed

lemma installUv_threw_ok:
  assumes "state_invariant (state w)" "trace_ok (sent w)" "in_progress (state w)"
    and "\<not> uvInstalled (state w)"
  shows "piece_ok w (installUv_threw e s thrown w)"
  using assms
  by (simp add: installUv_threw_def installUv_catch_def piece_ok_def keeps_def in_progress_def)

lemma installBun_exited_ok:
  assumes "state_invariant (state w)" "trace_ok (sent w)" "in_progress (state w)"
    and "\<not> bunInstalled (state w)"
  shows "piece_ok w (installBun_exited e s code stderr stdout w)"
proof (cases "code = Some 0")
  case True
  have "piece_ok (info e s (tr e ''mcp.envInit.messages.bunInstallScriptCompleted'') (Some Bun) w)
          (recheck_begin e s
             (info e s (tr e ''mcp.envInit.messages.bunInstallScriptCompleted'') (Some Bun) w))"
    using assms by (intro recheck_begin_ok) simp_all
  then have "piece_ok w (recheck_begin e s
             (info e s (tr e ''mcp.envInit.messages.bunInstallScriptCompleted'') (Some Bun) w))"
    by (rule piece_ok_trans [rotated]) (simp add: keeps_def)
  with True show ?thesis
    by (simp add: installBun_exited_def installBun_try_def)
next
  case False
  with assms show ?thesis
    by (simp add: installBun_exited_def installBun_try_def installBun_catch_def piece_ok_def keeps_def)
qed

lemma installBun_threw_ok:
  assumes "state_invariant (state w)" "trace_ok (sent w)" "in_progress (state w)"
    and "\<not> bunInstalled (state w)"
  shows "piece_ok w (installBun_threw e s thrown w)"
  using assms
  by (simp add: installBun_threw_def installBun_catch_def piece_ok_def keeps_def in_progress_def)

lemma run_rechecked_ok:
  assumes "state_invariant (state w)" "trace_ok (sent w)" "in_progress (state w)"
  shows "piece_ok w (run_rechecked e s uvOk2 bunOk2 w)"
proof (cases "uvOk2 \<and> bunOk2")
  case True
  with assms show ?thesis
    by (simp add: run_rechecked_def piece_ok_def keeps_def in_progress_def state_invariant_def
        now_def Let_def)
next
  case False
  with assms show ?thesis
    by (auto simp add: run_rechecked_def piece_ok_def keeps_def Let_def)
qed

lemma onChunk_ok:
  assumes lg: "\<And>msg w. lg msg w = pushLog e s lv msg src w"
  assumes "state_invariant (state w)" "trace_ok (sent w)" "awaiting_ok a (state w)"
  shows "piece_ok w (onChunk lg chunk w, Suspend a)"
proof -
  have "keeps w w1 \<and> state_invariant (state w1) \<and> trace_ok (sent w1) \<and> awaiting_ok a (state w1)
    \<Longrightarrow> keeps w w2 \<and> state_invariant (state w2) \<and> trace_ok (sent w2) \<and> awaiting_ok a (state w2)"
    if "w2 = fold (\<lambda>line w. let msg = trim line in if msg \<noteq> [] then lg msg w else w) ls w1"
    for ls w1 w2
    using that
  proof (induction ls arbitrary: w1 w2)
    case Nil
    then show ?case by simp
  next
    case (Cons l ls)
    have step: "keeps w (pushLog e s lv m src w1) \<and> state_invariant (state (pushLog e s lv m src w1))
      \<and> trace_ok (sent (pushLog e s lv m src w1)) \<and> awaiting_ok a (state (pushLog e s lv m src w1))" for m
      using Cons.prems(1) by (cases a) (simp_all add: keeps_def)
    show ?case
      using Cons.IH [OF _ refl] Cons.prems step
      by (simp add: lg Let_def)
  qed
  from this [OF refl, of w] assms(2-) show ?thesis
    by (simp add: piece_ok_def onChunk_def)
qed

lemma resume_ok:
  assumes "state_invariant (state w)" "trace_ok (sent w)" "awaiting_ok a (state w)"
    and "resume e s a i w = Some r"
  shows "piece_ok w r"
proof (cases a)
  case AwaitUvx
  with assms show ?thesis
    by (cases i) (auto simp add: run_uv_checked_ok, simp add: piece_ok_def keeps_def)
next
  case AwaitUv
  with assms show ?thesis
    by (cases i) (auto simp add: run_uv_checked_ok)
next
  case (AwaitBun uvOk)
  with assms show ?thesis
    by (cases i) (auto simp add: run_bun_checked_ok)
next
  case (AwaitSpawnUv needBun)
  with assms show ?thesis
    by (cases i) (auto simp add: installUv_exited_ok installUv_threw_ok intro!: onChunk_ok)
next
  case AwaitSpawnBun
  with assms show ?thesis
    by (cases i) (auto simp add: installBun_exited_ok installBun_threw_ok intro!: onChunk_ok)
next
  case AwaitUvx2
  with assms show ?thesis
    by (cases i) (auto simp add: piece_ok_def keeps_def)
next
  case AwaitUv2
  with assms show ?thesis
    by (cases i) (auto simp add: piece_ok_def keeps_def)
next
  case (AwaitBun2 uvOk2)
  with assms show ?thesis
    by (cases i) (auto simp add: run_rechecked_ok)
qed

subsection \<open>Steps keep the invariant of the process\<close>

lemma init_ok: "world_ok (init e)"
  by (simp add: world_ok_def init_def defaultState_def state_invariant_def trace_ok_def
      settled_ok_def tasks_ok_def)

lemma finish_fields:
  "running (finish e t r w) = None"
  "tasks (finish e t r w) = filter (\<lambda>t'. task_handle t' \<noteq> task_handle t) (tasks w)"
  "nextHandle (finish e t r w) = nextHandle w"
  by (simp_all add: finish_def start_catch_def start_finally_def Let_def split: sum.splits)

lemma finish_Inr:
  "state (finish e t (Inr st) w) = state w"
  "sent (finish e t (Inr st) w) = sent w"
  "settled (finish e t (Inr st) w) = (settled w)(task_handle t \<mapsto> Inr st)"
  by (simp_all add: finish_def start_catch_def start_finally_def)

lemma finish_Inl:
  "state (finish e t (Inl msg) w) =
     state (fail e (task_sender t) \<lparr>message_err = msg, command = None, exitCode = None,
              stderrTail = None, stdoutTail = None, suggestion = None\<rparr> w)"
  "sent (finish e t (Inl msg) w) =
     sent (fail e (task_sender t) \<lparr>message_err = msg, command = None, exitCode = None,
              stderrTail = None, stdoutTail = None, suggestion = None\<rparr> w)"
  "settled (finish e t (Inl msg) w) = (settled w)(task_handle t \<mapsto> Inr (state (finish e t (Inl msg) w)))"
  by (simp_all add: finish_def start_catch_def start_finally_def Let_def)

lemma proceed_ok:
  assumes t: "tasks w = [t]" and h: "task_handle t < nextHandle w"
    and ru: "running w = Some (task_handle t)" and ns: "settled w (task_handle t) = None"
    and so: "settled_ok w" and p: "piece_ok w r"
  shows "world_ok (proceed e t r)"
proof -
  obtain w' out where r: "r = (w', out)" by (cases r)
  from p r have k: "keeps w w'" and si: "state_invariant (state w')" and tr: "trace_ok (sent w')"
    and oo: "outcome_ok out (state w')"
    by (simp_all add: piece_ok_def)
  from k t h so ru ns have t': "tasks w' = [t]" and h': "task_handle t < nextHandle w'"
    and so': "settled_ok w'" and ru': "running w' = Some (task_handle t)"
    and ns': "settled w' (task_handle t) = None"
    by (simp_all add: keeps_def settled_ok_def)
  show ?thesis
  proof (cases out)
    case (Suspend a)
    with r si tr so' t' h' oo ru' ns' show ?thesis
      by (auto simp add: proceed_def world_ok_def tasks_ok_def settled_ok_def)
  next
    case Return
    with r si tr so' t' h' oo show ?thesis
      by (auto simp add: proceed_def world_ok_def tasks_ok_def settled_ok_def finish_fields finish_Inr)
  next
    case (Throw msg)
    from Throw oo si have nb: "\<not> (uvInstalled (state w') \<and> bunInstalled (state w'))"
      by (auto simp add: state_invariant_def)
    with Throw r si tr so' t' h' oo show ?thesis
      by (auto simp add: proceed_def world_ok_def tasks_ok_def settled_ok_def finish_fields finish_Inl)
  qed
qed

lemma deliver_ok:
  assumes "world_ok w" and "step e (Deliver h i) w = Some w'"
  shows "world_ok w'"
proof -
  from assms(2) obtain t r where f: "find (\<lambda>t. task_handle t = h) (tasks w) = Some t"
    and r: "resume e (task_sender t) (task_at t) i w = Some r" and w': "w' = proceed e t r"
    by (auto split: option.splits)
  from f have "tasks w \<noteq> []" by auto
  with assms(1) obtain t0 where t0: "tasks w = [t0]"
    by (auto simp add: world_ok_def tasks_ok_def split: list.splits)
  with f have tt: "tasks w = [t]" by (auto split: if_splits)
  with assms(1) have a: "awaiting_ok (task_at t) (state w)" and hl: "task_handle t < nextHandle w"
    and ru: "running w = Some (task_handle t)" and ns: "settled w (task_handle t) = None"
    by (simp_all add: world_ok_def tasks_ok_def)
  from assms(1) a r have "piece_ok w r"
    by (auto simp add: world_ok_def intro: resume_ok)
  with tt hl ru ns assms(1) show ?thesis
    unfolding w' by (intro proceed_ok) (simp_all add: world_ok_def)
qed

lemma start_ok:
  assumes "world_ok w"
  shows "world_ok (snd (start e s w))"
proof -
  consider (ready) "done_flag (state w) \<and> \<not> failed (state w) \<and> uvInstalled (state w) \<and> bunInstalled (state w)"
    | (inflight) "\<not> (done_flag (state w) \<and> \<not> failed (state w) \<and> uvInstalled (state w) \<and> bunInstalled (state w))"
        "running w \<noteq> None"
    | (fresh) "\<not> (done_flag (state w) \<and> \<not> failed (state w) \<and> uvInstalled (state w) \<and> bunInstalled (state w))"
        "running w = None"
    by blast
  then show ?thesis
  proof cases
    case ready
    with assms show ?thesis
      by (simp add: start_def world_ok_def settled_ok_def tasks_ok_def split: list.splits)
  next
    case inflight
    with assms show ?thesis
      by (simp add: start_def world_ok_def settled_ok_def tasks_ok_def split: list.splits)
  next
    case fresh
    define w1 where "w1 = info e s (tr e ''mcp.envInit.messages.startCheck'') (Some System)
       (setStage e s StartCheck
         (w\<lparr>clockReads := Suc (clockReads w),
            state := (state w)\<lparr>failed := False, done_flag := False, error := None,
               installing := False, updatedAt := dateNow e (clockReads w)\<rparr>\<rparr>))"
    define t where "t = \<lparr>task_sender = s, task_handle = nextHandle w, task_at = AwaitUvx\<rparr>"
    define w2 where "w2 = (fst (run_begin e s w1))\<lparr>running := Some (nextHandle w),
        nextHandle := Suc (nextHandle w), tasks := tasks (fst (run_begin e s w1)) @ [t]\<rparr>"
    from fresh assms have nt: "tasks w = []"
      by (auto simp add: world_ok_def tasks_ok_def split: list.splits)
    have k1: "keeps w w1"
      by (simp add: w1_def keeps_def)
    from assms have p1: "state_invariant (state w1)" "trace_ok (sent w1)" "in_progress (state w1)"
      by (simp_all add: w1_def world_ok_def state_invariant_def in_progress_def)
    then have pb: "piece_ok w1 (run_begin e s w1)"
      by (rule run_begin_ok)
    have eq: "snd (start e s w) = proceed e t (w2, snd (run_begin e s w1))"
      using fresh
      by (auto simp add: start_def now_def Let_def split_def w1_def w2_def t_def run_begin_def)
    have "piece_ok w2 (w2, snd (run_begin e s w1))"
      using pb by (simp add: piece_ok_def w2_def)
    moreover have "tasks w2 = [t]"
      using pb k1 nt by (simp add: w2_def piece_ok_def keeps_def)
    moreover have "task_handle t < nextHandle w2"
      by (simp add: w2_def t_def)
    moreover have "settled_ok w2"
      using assms pb k1 by (auto simp add: world_ok_def settled_ok_def w2_def piece_ok_def keeps_def less_Suc_eq)
    moreover have "running w2 = Some (task_handle t)"
      by (simp add: w2_def t_def)
    moreover have "settled w2 (task_handle t) = None"
      using assms pb k1 by (cases "settled w (nextHandle w)")
         (auto simp add: world_ok_def settled_ok_def w2_def t_def piece_ok_def keeps_def)
    ultimately show ?thesis
      unfolding eq by (intro proceed_ok)
  qed
qed

lemma step_ok: "world_ok w \<Longrightarrow> step e a w = Some w' \<Longrightarrow> world_ok w'"
  by (cases a) (auto simp add: start_ok deliver_ok simp del: step.simps(2))

lemma execute_ok: "world_ok w \<Longrightarrow> execute e as w = Some w' \<Longrightarrow> world_ok w'"
proof (induction as arbitrary: w)
  case Nil
  then show ?case by simp
next
  case (Cons a as)
  then show ?case
    by (auto split: option.splits dest: step_ok)
qed

section \<open>The log ring\<close>

lemma slice_last_drop: "slice_last n xs = drop (length xs - n) xs"
  by (simp add: slice_last_def)

lemma pushLog_logs:
  "logs (state (pushLog e s lv msg src w)) =
     slice_last MAX_LOGS (logs (state w) @
        [\<lparr>ts = dateNow e (clockReads w), level = lv, message = msg, source = src\<rparr>])"
  by (simp add: pushLog_state)

lemma drop_drop_snoc:
  "drop (length (drop (length xs - n) xs @ ys) - n) (drop (length xs - n) xs @ ys)
     = drop (length (xs @ ys) - n) (xs @ ys)"
  by (cases "length xs \<le> n") (simp_all add: ac_simps)

lemma pushLogs_logs:
  "logs (state (pushLogs e s rs w)) =
     (if rs = [] then logs (state w)
      else slice_last MAX_LOGS (logs (state w) @ log_entries e (clockReads w) rs))"
proof (induction rs arbitrary: w)
  case Nil
  then show ?case by simp
next
  case (Cons r rs)
  obtain lv msg src where r: "r = (lv, msg, src)" by (cases r)
  show ?case
    using drop_drop_snoc [of "logs (state w) @ [\<lparr>ts = dateNow e (clockReads w), level = lv, message = msg, source = src\<rparr>]" MAX_LOGS "log_entries e (Suc (Suc (clockReads w))) rs"]
    by (simp add: r Cons.IH pushLog_logs slice_last_drop)
qed

lemma length_log_entries [simp]: "length (log_entries e n rs) = length rs"
  by (induction e n rs rule: log_entries.induct) simp_all

text \<open>
  Claim C6. After a log append the log holds at most 500 entries. An append keeps the old
  entries followed by the new one and drops from the front what exceeds 500, so the oldest
  entries go first and the order of the others is kept; after a series of appends the log
  is the last 500 of the old entries followed by the appended ones. Appending 600 entries to
  an empty log leaves the last 500 of them, in order.
\<close>

theorem C6_log_ring_bound:
  assumes "length (logs (state w)) \<le> MAX_LOGS"
  shows "length (logs (state (pushLog e s lv msg src w))) \<le> 500
       \<and> logs (state (pushLog e s lv msg src w)) =
           drop (Suc (length (logs (state w))) - 500)
             (logs (state w) @ [\<lparr>ts = dateNow e (clockReads w), level = lv, message = msg, source = src\<rparr>])
       \<and> logs (state (pushLogs e s rs w)) =
           drop (length (logs (state w)) + length rs - 500) (logs (state w) @ log_entries e (clockReads w) rs)
       \<and> length (logs (state (pushLogs e s rs w))) = min 500 (length (logs (state w)) + length rs)"
proof -
  have one: "length (logs (state (pushLog e s lv msg src w))) \<le> 500"
    by (simp add: pushLog_logs slice_last_drop MAX_LOGS_def)
  have two: "logs (state (pushLog e s lv msg src w)) =
           drop (Suc (length (logs (state w))) - 500)
             (logs (state w) @ [\<lparr>ts = dateNow e (clockReads w), level = lv, message = msg, source = src\<rparr>])"
    by (simp add: pushLog_logs slice_last_drop MAX_LOGS_def)
  have three: "logs (state (pushLogs e s rs w)) =
           drop (length (logs (state w)) + length rs - 500) (logs (state w) @ log_entries e (clockReads w) rs)"
    using assms by (simp add: pushLogs_logs slice_last_drop MAX_LOGS_def)
  have "length (logs (state (pushLogs e s rs w))) = min 500 (length (logs (state w)) + length rs)"
    unfolding three using assms by (simp add: MAX_LOGS_def)
  with one two three show ?thesis
    by blast
qed

theorem C6_log_ring_bound_witness:
  "length (logs (state (init demo_env))) \<le> MAX_LOGS
   \<and> logs (state (pushLogs demo_env 7 (replicate 600 (Info, ''line'', Some Uv)) (init demo_env))) =
       drop 100 (log_entries demo_env 1 (replicate 600 (Info, ''line'', Some Uv)))
   \<and> length (logs (state (pushLogs demo_env 7 (replicate 600 (Info, ''line'', Some Uv)) (init demo_env)))) = 500"
  using C6_log_ring_bound [of "init demo_env" demo_env 7 Info "''line''" "Some Uv" "replicate 600 (Info, ''line'', Some Uv)"]
  by (simp add: init_def defaultState_def)

section \<open>Executions and the invariant of the process\<close>

text \<open>
  A run that suspends keeps everything but its task; a \<open>start\<close> that finds no run and a
  state that is not ready creates the one task, under the next promise, after the probe of
  uvx was issued.
\<close>

lemma proceed_Suspend_fields [simp]:
  "state (proceed e t (w, Suspend a)) = state w"
  "sent (proceed e t (w, Suspend a)) = sent w"
  "running (proceed e t (w, Suspend a)) = running w"
  "settled (proceed e t (w, Suspend a)) = settled w"
  "nextHandle (proceed e t (w, Suspend a)) = nextHandle w"
  "calls (proceed e t (w, Suspend a)) = calls w"
  "clockReads (proceed e t (w, Suspend a)) = clockReads w"
  "tasks (proceed e t (w, Suspend a)) =
     map (\<lambda>t'. if task_handle t' = task_handle t then t'\<lparr>task_at := a\<rparr> else t') (tasks w)"
  by (simp_all add: proceed_def)

lemma start_fresh:
  assumes "\<not> env_ready (state w)" "running w = None"
  shows "fst (start e s w) = Pending (nextHandle w)"
    and "running (snd (start e s w)) = Some (nextHandle w)"
    and "nextHandle (snd (start e s w)) = Suc (nextHandle w)"
    and "settled (snd (start e s w)) = settled w"
    and "calls (snd (start e s w)) = calls w @ [Probe ''uvx'']"
    and "tasks (snd (start e s w)) =
           map (\<lambda>t'. if task_handle t' = nextHandle w then t'\<lparr>task_at := AwaitUvx\<rparr> else t')
               (tasks w @ [\<lparr>task_sender = s, task_handle = nextHandle w, task_at = AwaitUvx\<rparr>])"
    and "in_progress (state (snd (start e s w)))"
    and "uvInstalled (state (snd (start e s w))) = uvInstalled (state w)"
    and "bunInstalled (state (snd (start e s w))) = bunInstalled (state w)"
  using assms
  by (auto simp add: start_def env_ready_def now_def Let_def run_begin_def in_progress_def)

lemma init_fields [simp]:
  "running (init e) = None" "tasks (init e) = []" "nextHandle (init e) = 0"
  "sent (init e) = []" "calls (init e) = []" "settled (init e) = (\<lambda>_. None)"
  "clockReads (init e) = 1" "state (init e) = defaultState (dateNow e 0)"
  by (simp_all add: init_def)

lemma defaultState_flags [simp]:
  "\<not> done_flag (defaultState t0)" "\<not> failed (defaultState t0)" "\<not> uvInstalled (defaultState t0)"
  "\<not> bunInstalled (defaultState t0)" "\<not> installing (defaultState t0)" "error (defaultState t0) = None"
  "logs (defaultState t0) = []" "stage (defaultState t0) = Idle" "updatedAt (defaultState t0) = t0"
  by (simp_all add: defaultState_def)

lemma proceed_done [simp]:
  "proceed e t (w, Return) = finish e t (Inr (state w)) w"
  "proceed e t (w, Throw msg) = finish e t (Inl msg) w"
  by (simp_all add: proceed_def)

lemma reachable_ok: "execute e as (init e) = Some w \<Longrightarrow> world_ok w"
  using execute_ok [OF init_ok] .

text \<open>The example executions are possible, and leave the run where their names say.\<close>

lemma demo_env_fields [simp]:
  "tr demo_env = (\<lambda>key. key)" "isWin demo_env" "execPath demo_env = ''node''"
  "scriptPath demo_env = (\<lambda>name. ''/res/scripts/'' @ name)" "dateNow demo_env = (\<lambda>n. int n)"
  by (simp_all add: demo_env_def)

lemma execute_append:
  "execute e (as @ bs) w = (case execute e as w of None \<Rightarrow> None | Some w' \<Rightarrow> execute e bs w')"
  by (induction as arbitrary: w) (simp_all split: option.splits)

lemma both_present_runs: "execute demo_env both_present (init demo_env) \<noteq> None"
  by (simp add: both_present_def start_fresh env_ready_def run_uv_checked_def
      run_bun_checked_def Let_def)

lemma both_present_final:
  "env_ready (state (the (execute demo_env both_present (init demo_env))))"
  by (simp add: both_present_def start_fresh env_ready_def run_uv_checked_def
      run_bun_checked_def Let_def finish_Inr)

lemma uv_missing_runs:
  "execute demo_env uv_missing (init demo_env) \<noteq> None"
  "tasks (the (execute demo_env uv_missing (init demo_env))) =
     [\<lparr>task_sender = 7, task_handle = 0, task_at = AwaitSpawnUv False\<rparr>]"
  by (simp_all add: uv_missing_def start_fresh env_ready_def run_uv_checked_def
      run_bun_checked_def installUv_begin_def Let_def)

lemma bun_missing_runs:
  "execute demo_env bun_missing (init demo_env) \<noteq> None"
  "tasks (the (execute demo_env bun_missing (init demo_env))) =
     [\<lparr>task_sender = 7, task_handle = 0, task_at = AwaitSpawnBun\<rparr>]"
  by (simp_all add: bun_missing_def start_fresh env_ready_def run_uv_checked_def
      run_bun_checked_def installBun_begin_def run_after_installUv_def Let_def)

lemma execute_snoc:
  "execute e as w0 \<noteq> None \<Longrightarrow>
     execute e (as @ [a]) w0 = step e a (the (execute e as w0))"
  by (auto simp add: execute_append split: option.splits)

lemma uv_exit_1_runs: "execute demo_env uv_exit_1 (init demo_env) \<noteq> None"
  by (simp add: uv_exit_1_def execute_snoc uv_missing_runs)

lemma bun_spawn_fails_runs: "execute demo_env bun_spawn_fails (init demo_env) \<noteq> None"
  by (simp add: bun_spawn_fails_def execute_snoc bun_missing_runs)

lemma uv_exit_1_final:
  "done_flag (state (the (execute demo_env uv_exit_1 (init demo_env))))"
  "failed (state (the (execute demo_env uv_exit_1 (init demo_env))))"
  by (simp_all add: uv_exit_1_def execute_snoc uv_missing_runs installUv_exited_def
      installUv_try_def installUv_catch_def finish_Inl)

text \<open>
  Claim C5. In every state that \<open>getState\<close> can return and in every snapshot that was
  emitted, after any sequence of calls of \<open>start\<close> and resumptions of the run: a state
  that is done is either failed or has both tools installed, and not both; a state that is
  installing is not done; and the error is present exactly when the state is failed.
\<close>

theorem C5_state_invariant:
  assumes "execute e as (init e) = Some w"
  shows "state_invariant (getState w) \<and> list_all state_invariant (snapshots (sent w))"
  using reachable_ok [OF assms] by (simp add: world_ok_def trace_ok_def getState_def)

theorem C5_state_invariant_witness:
  "execute demo_env uv_exit_1 (init demo_env) \<noteq> None
   \<and> done_flag (getState (the (execute demo_env uv_exit_1 (init demo_env))))
   \<and> failed (getState (the (execute demo_env uv_exit_1 (init demo_env))))
   \<and> state_invariant (getState (the (execute demo_env uv_exit_1 (init demo_env))))
   \<and> list_all state_invariant (snapshots (sent (the (execute demo_env uv_exit_1 (init demo_env)))))"
proof -
  from uv_exit_1_runs obtain w where w: "execute demo_env uv_exit_1 (init demo_env) = Some w"
    by blast
  from C5_state_invariant [OF w] w uv_exit_1_final show ?thesis
    by (simp add: getState_def)
qed

text \<open>
  Claim C2. When the cached state is done, not failed, and has both tools installed,
  \<open>start\<close> emits one snapshot of that state to the given observer and returns that state;
  nothing else in the process changes: the state (with its logs and \<open>updatedAt\<close>) is as it
  was, the clock is not read, no collaborator is called and no run is created.
\<close>

theorem C2_already_ready:
  assumes "done_flag (state w)" "\<not> failed (state w)" "uvInstalled (state w)" "bunInstalled (state w)"
  shows "start e s w = (Resolved (state w), w\<lparr>sent := sent w @ [(s, StateEvent (state w))]\<rparr>)
       \<and> state (snd (start e s w)) = state w \<and> calls (snd (start e s w)) = calls w
       \<and> tasks (snd (start e s w)) = tasks w"
  using assms by (simp add: start_def emitState_def emit_def)

theorem C2_already_ready_witness:
  "done_flag (state (the (execute demo_env both_present (init demo_env))))
   \<and> \<not> failed (state (the (execute demo_env both_present (init demo_env))))
   \<and> uvInstalled (state (the (execute demo_env both_present (init demo_env))))
   \<and> bunInstalled (state (the (execute demo_env both_present (init demo_env))))
   \<and> start demo_env 8 (the (execute demo_env both_present (init demo_env))) =
       (Resolved (state (the (execute demo_env both_present (init demo_env)))),
        (the (execute demo_env both_present (init demo_env)))
          \<lparr>sent := sent (the (execute demo_env both_present (init demo_env)))
                    @ [(8, StateEvent (state (the (execute demo_env both_present (init demo_env)))))]\<rparr>)
   \<and> calls (snd (start demo_env 8 (the (execute demo_env both_present (init demo_env)))))
       = [Probe ''uvx'', Probe ''bun'']"
proof -
  let ?w = "the (execute demo_env both_present (init demo_env))"
  have r: "done_flag (state ?w)" "\<not> failed (state ?w)" "uvInstalled (state ?w)" "bunInstalled (state ?w)"
    using both_present_final by (simp_all add: env_ready_def)
  have c: "calls ?w = [Probe ''uvx'', Probe ''bun'']"
    by (simp add: both_present_def start_fresh env_ready_def run_uv_checked_def
        run_bun_checked_def Let_def finish_def start_catch_def start_finally_def)
  from C2_already_ready [OF r, of demo_env 8] r c show ?thesis
    by simp
qed

text \<open>
  Claim C1. After any sequence of calls and resumptions at most one run exists. While
  \<^verbatim>\<open>this.running\<close> holds a promise, that promise belongs to the one run, and a call of
  \<open>start\<close> emits one snapshot of the current state to the new caller, returns that same
  promise and changes nothing else. Whenever \<open>start\<close> returns a promise, it is the promise
  of the one run in flight.
\<close>

theorem C1_single_flight:
  assumes "execute e as (init e) = Some w"
  shows "length (tasks w) \<le> 1
       \<and> (\<forall>h. running w = Some h \<longrightarrow>
             (\<exists>t. tasks w = [t] \<and> task_handle t = h)
             \<and> (\<forall>s. start e s w = (Pending h, w\<lparr>sent := sent w @ [(s, StateEvent (state w))]\<rparr>)))
       \<and> (\<forall>s h w'. start e s w = (Pending h, w') \<longrightarrow>
             running w' = Some h \<and> (\<exists>t. tasks w' = [t] \<and> task_handle t = h))"
proof -
  have ok: "world_ok w"
    using assms by (rule reachable_ok)
  then have tk: "tasks_ok w"
    by (simp add: world_ok_def)
  have one: "length (tasks w) \<le> 1"
    using tk by (simp add: tasks_ok_def split: list.splits)
  have two: "(\<exists>t. tasks w = [t] \<and> task_handle t = h)
             \<and> (\<forall>s. start e s w = (Pending h, w\<lparr>sent := sent w @ [(s, StateEvent (state w))]\<rparr>))"
    if r: "running w = Some h" for h
  proof -
    from tk r obtain t where t: "tasks w = [t]" "task_handle t = h" "awaiting_ok (task_at t) (state w)"
      by (auto simp add: tasks_ok_def split: list.splits)
    from t(3) have "\<not> done_flag (state w)"
      by (cases "task_at t") (simp_all add: in_progress_def)
    with r t show ?thesis
      by (simp add: start_def emitState_def emit_def)
  qed
  have three: "running w' = Some h \<and> (\<exists>t. tasks w' = [t] \<and> task_handle t = h)"
    if st: "start e s w = (Pending h, w')" for s h w'
  proof (cases "running w")
    case None
    with tk have nt: "tasks w = []"
      by (simp add: tasks_ok_def split: list.splits)
    from st have nr: "\<not> env_ready (state w)"
      by (auto simp add: start_def env_ready_def Let_def)
    from st have "h = nextHandle w" "w' = snd (start e s w)"
      using start_fresh(1) [OF nr None, of e s] by simp_all
    then show ?thesis
      using start_fresh(2,6) [OF nr None, of e s] nt by simp
  next
    case (Some h0)
    from two [OF Some] st have "h = h0" "w' = w\<lparr>sent := sent w @ [(s, StateEvent (state w))]\<rparr>"
      by simp_all
    with two [OF Some] Some show ?thesis
      by simp
  qed
  from one two three show ?thesis
    by blast
qed

theorem C1_single_flight_witness:
  "execute demo_env [CallStart 7] (init demo_env) = Some (snd (start demo_env 7 (init demo_env)))
   \<and> fst (start demo_env 7 (init demo_env)) = Pending 0
   \<and> running (snd (start demo_env 7 (init demo_env))) = Some 0
   \<and> length (tasks (snd (start demo_env 7 (init demo_env)))) \<le> 1
   \<and> start demo_env 8 (snd (start demo_env 7 (init demo_env))) =
       (Pending 0,
        (snd (start demo_env 7 (init demo_env)))
          \<lparr>sent := sent (snd (start demo_env 7 (init demo_env)))
                    @ [(8, StateEvent (state (snd (start demo_env 7 (init demo_env)))))]\<rparr>)
   \<and> calls (snd (start demo_env 8 (snd (start demo_env 7 (init demo_env))))) = [Probe ''uvx'']"
proof -
  let ?w = "snd (start demo_env 7 (init demo_env))"
  have e: "execute demo_env [CallStart 7] (init demo_env) = Some ?w"
    by simp
  have r: "running ?w = Some 0" "fst (start demo_env 7 (init demo_env)) = Pending 0"
    "calls ?w = [Probe ''uvx'']"
    by (simp_all add: start_fresh env_ready_def)
  note c = C1_single_flight [OF e]
  from c have l: "length (tasks ?w) \<le> 1"
    by (rule conjunct1)
  from c r(1) have s: "start demo_env 8 ?w =
      (Pending 0, ?w\<lparr>sent := sent ?w @ [(8, StateEvent (state ?w))]\<rparr>)"
    by blast
  have "calls (snd (start demo_env 8 ?w)) = [Probe ''uvx'']"
    unfolding s using r(3) by simp
  with e r l s show ?thesis
    by blast
qed

section \<open>What \<open>fail\<close> emits\<close>

lemma fail_sent_explicit:
  "sent (fail e s err w) =
     (let st1 = (state w)\<lparr>failed := True, done_flag := True, installing := False,
                  error := Some err, stage := Failed, updatedAt := dateNow e (clockReads w)\<rparr>;
          l1 = \<lparr>ts = dateNow e (Suc (clockReads w)), level = Error,
                message = tr e ''mcp.envInit.messages.initFailed'' @ message_err err,
                source = Some System\<rparr>;
          st2 = st1\<lparr>logs := slice_last MAX_LOGS (logs (state w) @ [l1]),
                    updatedAt := dateNow e (Suc (Suc (clockReads w)))\<rparr>;
          l2 = \<lparr>ts = dateNow e (Suc (Suc (Suc (clockReads w)))), level = Warn,
                message = tr e ''mcp.envInit.errors.suggestion'' @ the (suggestion err),
                source = Some System\<rparr>;
          st3 = st2\<lparr>logs := slice_last MAX_LOGS (logs st2 @ [l2]),
                    updatedAt := dateNow e (Suc (Suc (Suc (Suc (clockReads w)))))\<rparr>
      in sent w @ [(s, StateEvent st1), (s, LogEvent l1), (s, StateEvent st2)]
           @ (if truthy (suggestion err) then [(s, LogEvent l2), (s, StateEvent st3)] else []))"
  by (simp add: fail_def now_def Let_def pushLog_sent pushLog_state emitState_sent)

lemma snapshots_fail_first:
  "snapshots (sent (fail e s err w)) ! length (snapshots (sent w)) =
     (state w)\<lparr>failed := True, done_flag := True, installing := False,
               error := Some err, stage := Failed, updatedAt := dateNow e (clockReads w)\<rparr>"
  by (simp add: fail_sent_explicit Let_def nth_append)

lemma snapshots_fail_longer:
  "length (snapshots (sent w)) < length (snapshots (sent (fail e s err w)))"
  by (simp add: fail_sent_explicit Let_def)

lemma snapshots_fail_keep:
  "i < length (snapshots (sent w)) \<Longrightarrow>
     snapshots (sent (fail e s err w)) ! i = snapshots (sent w) ! i"
  by (simp add: fail_sent_explicit Let_def nth_append)

lemma tailText_tail: "length (tailText text n) \<le> n \<and> suffix (tailText text n) text"
  by (simp add: tailText_def suffix_drop)

lemma exit_failure_overwritten:
  assumes st: "step e (Deliver (task_handle t) (SpawnExit code stderr stdout)) w =
                 Some (finish e t (Inl thrown) (fail e (task_sender t) err w))"
  shows "\<exists>w'. step e (Deliver (task_handle t) (SpawnExit code stderr stdout)) w = Some w'
          \<and> settled w' (task_handle t) = Some (Inr (state w'))
          \<and> failed (state w') \<and> done_flag (state w')
          \<and> error (state w') =
              Some \<lparr>message_err = thrown, command = None, exitCode = None,
                    stderrTail = None, stdoutTail = None, suggestion = None\<rparr>
          \<and> error (snapshots (sent w') ! length (snapshots (sent w))) = Some err"
proof -
  let ?w1 = "fail e (task_sender t) err w"
  let ?w' = "finish e t (Inl thrown) ?w1"
  have "snapshots (sent ?w') ! length (snapshots (sent w)) =
        snapshots (sent ?w1) ! length (snapshots (sent w))"
    by (simp add: finish_Inl snapshots_fail_keep snapshots_fail_longer)
  then have "error (snapshots (sent ?w') ! length (snapshots (sent w))) = Some err"
    by (simp add: snapshots_fail_first)
  with st show ?thesis
    by (simp add: finish_Inl)
qed

text \<open>
  Claim C3. When an installer exits with a code other than 0, the state \<open>start\<close> resolves
  with is failed and done, but its error holds only the message of the rethrown error: the
  \<^verbatim>\<open>.catch\<close> handler of \<open>start\<close> calls \<open>fail\<close> again, without the guard the installers' own
  \<^verbatim>\<open>catch\<close> blocks have, and replaces the detail that the installer had stored. The detail
  with the exit code, the command and the output tails, each tail an end piece of the
  captured output of at most 4000 characters, is only in the first snapshot that the step
  emits.
\<close>

theorem C3_exit_failure_detail_overwritten:
  assumes "tasks w = [t]" and "code \<noteq> Some 0"
    and "task_at t = AwaitSpawnUv needBun \<or> task_at t = AwaitSpawnBun"
  shows "\<exists>w'. step e (Deliver (task_handle t) (SpawnExit code stderr stdout)) w = Some w'
          \<and> settled w' (task_handle t) = Some (Inr (state w'))
          \<and> failed (state w') \<and> done_flag (state w')
          \<and> error (state w') =
              Some \<lparr>message_err = (if task_at t = AwaitSpawnBun then ''bun install failed''
                                   else ''uv install failed''),
                    command = None, exitCode = None,
                    stderrTail = None, stdoutTail = None, suggestion = None\<rparr>
          \<and> error (snapshots (sent w') ! length (snapshots (sent w))) =
              Some \<lparr>message_err =
                      tr e (if task_at t = AwaitSpawnBun then ''mcp.envInit.messages.bunInstallFailed''
                            else ''mcp.envInit.messages.uvInstallFailed''),
                    command =
                      Some (execPath e @ '' '' @
                            scriptPath e (if task_at t = AwaitSpawnBun then ''install-bun.js''
                                          else ''install-uv.js'')),
                    exitCode = Some code,
                    stderrTail = Some (tailText stderr 4000),
                    stdoutTail = Some (tailText stdout 4000),
                    suggestion = summarizeFailure e stderr stdout\<rparr>
          \<and> length (tailText stderr 4000) \<le> 4000 \<and> suffix (tailText stderr 4000) stderr
          \<and> length (tailText stdout 4000) \<le> 4000 \<and> suffix (tailText stdout 4000) stdout"
proof (cases "task_at t = AwaitSpawnBun")
  case True
  have "step e (Deliver (task_handle t) (SpawnExit code stderr stdout)) w =
          Some (finish e t (Inl ''bun install failed'')
            (fail e (task_sender t)
               \<lparr>message_err = tr e ''mcp.envInit.messages.bunInstallFailed'',
                command = Some (command_of e (bun_script e)),
                exitCode = Some code,
                stderrTail = Some (tailText stderr TAIL_MAX),
                stdoutTail = Some (tailText stdout TAIL_MAX),
                suggestion = summarizeFailure e stderr stdout\<rparr> w))"
    using assms True by (simp add: installBun_exited_def installBun_try_def installBun_catch_def)
  from exit_failure_overwritten [OF this] True show ?thesis
    by (simp add: command_of_def bun_script_def TAIL_MAX_def tailText_tail)
next
  case False
  with assms(3) have a: "task_at t = AwaitSpawnUv needBun"
    by simp
  have "step e (Deliver (task_handle t) (SpawnExit code stderr stdout)) w =
          Some (finish e t (Inl ''uv install failed'')
            (fail e (task_sender t)
               \<lparr>message_err = tr e ''mcp.envInit.messages.uvInstallFailed'',
                command = Some (command_of e (uv_script e)),
                exitCode = Some code,
                stderrTail = Some (tailText stderr TAIL_MAX),
                stdoutTail = Some (tailText stdout TAIL_MAX),
                suggestion = summarizeFailure e stderr stdout\<rparr> w))"
    using assms a by (simp add: installUv_exited_def installUv_try_def installUv_catch_def)
  from exit_failure_overwritten [OF this] a show ?thesis
    by (simp add: command_of_def uv_script_def TAIL_MAX_def tailText_tail)
qed

theorem C3_exit_failure_detail_overwritten_witness:
  "tasks (the (execute demo_env uv_missing (init demo_env))) =
     [\<lparr>task_sender = 7, task_handle = 0, task_at = AwaitSpawnUv False\<rparr>]
   \<and> Some (1 :: int) \<noteq> Some 0
   \<and> execute demo_env uv_exit_1 (init demo_env) \<noteq> None
   \<and> settled (the (execute demo_env uv_exit_1 (init demo_env))) 0 =
       Some (Inr (state (the (execute demo_env uv_exit_1 (init demo_env)))))
   \<and> failed (state (the (execute demo_env uv_exit_1 (init demo_env))))
   \<and> done_flag (state (the (execute demo_env uv_exit_1 (init demo_env))))
   \<and> error (state (the (execute demo_env uv_exit_1 (init demo_env)))) =
       Some \<lparr>message_err = ''uv install failed'', command = None, exitCode = None,
             stderrTail = None, stdoutTail = None, suggestion = None\<rparr>
   \<and> error (snapshots (sent (the (execute demo_env uv_exit_1 (init demo_env))))
              ! length (snapshots (sent (the (execute demo_env uv_missing (init demo_env)))))) =
       Some \<lparr>message_err = ''mcp.envInit.messages.uvInstallFailed'',
             command = Some ''node /res/scripts/install-uv.js'',
             exitCode = Some (Some 1), stderrTail = Some ''boom'', stdoutTail = Some ''out'',
             suggestion = None\<rparr>"
proof -
  let ?w = "the (execute demo_env uv_missing (init demo_env))"
  let ?t = "\<lparr>task_sender = 7, task_handle = 0, task_at = AwaitSpawnUv False\<rparr>"
  have t: "tasks ?w = [?t]"
    by (rule uv_missing_runs(2))
  have e: "execute demo_env uv_exit_1 (init demo_env) =
             step demo_env (Deliver (task_handle ?t) (SpawnExit (Some 1) ''boom'' ''out'')) ?w"
    by (simp add: uv_exit_1_def execute_snoc uv_missing_runs(1) del: step.simps)
  have h: "summarizeFailure demo_env ''boom'' ''out'' = None"
    by (simp add: summarizeFailure_def toLowerCase_def toLowerCase_char_def Let_def)
  have x: "tailText ''boom'' 4000 = ''boom''" "tailText ''out'' 4000 = ''out''"
    by (simp_all add: tailText_def)
  from C3_exit_failure_detail_overwritten [OF t, of "Some 1" False demo_env "''boom''" "''out''"]
  have "\<exists>w'. step demo_env (Deliver (task_handle ?t) (SpawnExit (Some 1) ''boom'' ''out'')) ?w = Some w'
    \<and> settled w' (task_handle ?t) = Some (Inr (state w')) \<and> failed (state w') \<and> done_flag (state w')
    \<and> error (state w') = Some \<lparr>message_err = ''uv install failed'', command = None, exitCode = None,
             stderrTail = None, stdoutTail = None, suggestion = None\<rparr>
    \<and> error (snapshots (sent w') ! length (snapshots (sent ?w))) =
       Some \<lparr>message_err = ''mcp.envInit.messages.uvInstallFailed'',
             command = Some ''node /res/scripts/install-uv.js'',
             exitCode = Some (Some 1), stderrTail = Some ''boom'', stdoutTail = Some ''out'',
             suggestion = None\<rparr>"
    by (simp add: h x del: step.simps)
  then obtain w' where w': "step demo_env (Deliver (task_handle ?t) (SpawnExit (Some 1) ''boom'' ''out'')) ?w = Some w'"
    "settled w' (task_handle ?t) = Some (Inr (state w'))" "failed (state w')" "done_flag (state w')"
    "error (state w') = Some \<lparr>message_err = ''uv install failed'', command = None, exitCode = None,
             stderrTail = None, stdoutTail = None, suggestion = None\<rparr>"
    "error (snapshots (sent w') ! length (snapshots (sent ?w))) =
       Some \<lparr>message_err = ''mcp.envInit.messages.uvInstallFailed'',
             command = Some ''node /res/scripts/install-uv.js'',
             exitCode = Some (Some 1), stderrTail = Some ''boom'', stdoutTail = Some ''out'',
             suggestion = None\<rparr>"
    by blast
  from w'(1) e have "the (execute demo_env uv_exit_1 (init demo_env)) = w'"
    "execute demo_env uv_exit_1 (init demo_env) \<noteq> None"
    by simp_all
  with w' t show ?thesis
    by simp
qed

section \<open>When the run ends\<close>

lemma concluded:
  assumes ok: "world_ok w" and t: "t \<in> set (tasks w)"
    and r: "resume e (task_sender t) (task_at t) i w = Some (w1, out)"
    and o: "out = Return \<or> out = Throw msg"
  shows "\<exists>w'. step e (Deliver (task_handle t) i) w = Some w'
           \<and> settled w' (task_handle t) = Some (Inr (state w'))
           \<and> (out = Throw msg \<longrightarrow> failed (state w')) \<and> done_flag (state w')
           \<and> running w' = None \<and> tasks w' = []"
proof -
  from ok t have tt: "tasks w = [t]" and a: "awaiting_ok (task_at t) (state w)"
    by (auto simp add: world_ok_def tasks_ok_def split: list.splits)
  from ok a r have p: "piece_ok w (w1, out)"
    by (auto simp add: world_ok_def intro: resume_ok)
  then have k: "tasks w1 = [t]" and d: "outcome_ok out (state w1)"
    using tt by (simp_all add: piece_ok_def keeps_def)
  have st: "step e (Deliver (task_handle t) i) w = Some (proceed e t (w1, out))"
    using tt r by simp
  from o show ?thesis
  proof
    assume "out = Return"
    with st k d show ?thesis
      by (simp add: finish_fields finish_Inr)
  next
    assume "out = Throw msg"
    with st k d show ?thesis
      by (simp add: finish_fields finish_Inl)
  qed
qed

lemma bun_missing_handle:
  "nextHandle (the (execute demo_env bun_missing (init demo_env))) = 1"
  by (simp add: bun_missing_def start_fresh env_ready_def run_uv_checked_def
      run_bun_checked_def installBun_begin_def run_after_installUv_def Let_def)

lemma both_present_concluded:
  "running (the (execute demo_env both_present (init demo_env))) = None"
  "tasks (the (execute demo_env both_present (init demo_env))) = []"
  "settled (the (execute demo_env both_present (init demo_env))) 0 =
     Some (Inr (state (the (execute demo_env both_present (init demo_env)))))"
  by (simp_all add: both_present_def start_fresh env_ready_def run_uv_checked_def
      run_bun_checked_def Let_def finish_Inr finish_fields)

text \<open>
  Claim C7, as the claim states it, fails in its last part: when the run has concluded with
  success, \<^verbatim>\<open>this.running\<close> is clear and the promise is resolved with the ready state, but a
  subsequent \<open>start\<close> launches no fresh run. It returns the cached state at once, creates no
  run and calls no collaborator.
\<close>

theorem C7_no_fresh_run_after_success:
  "execute demo_env both_present (init demo_env) \<noteq> None
   \<and> settled (the (execute demo_env both_present (init demo_env))) 0 =
       Some (Inr (state (the (execute demo_env both_present (init demo_env)))))
   \<and> done_flag (state (the (execute demo_env both_present (init demo_env))))
   \<and> \<not> failed (state (the (execute demo_env both_present (init demo_env))))
   \<and> running (the (execute demo_env both_present (init demo_env))) = None
   \<and> tasks (the (execute demo_env both_present (init demo_env))) = []
   \<and> fst (start demo_env 9 (the (execute demo_env both_present (init demo_env)))) =
       Resolved (state (the (execute demo_env both_present (init demo_env))))
   \<and> running (snd (start demo_env 9 (the (execute demo_env both_present (init demo_env))))) = None
   \<and> tasks (snd (start demo_env 9 (the (execute demo_env both_present (init demo_env))))) = []
   \<and> calls (snd (start demo_env 9 (the (execute demo_env both_present (init demo_env))))) =
       calls (the (execute demo_env both_present (init demo_env)))"
proof -
  let ?w = "the (execute demo_env both_present (init demo_env))"
  have r: "done_flag (state ?w)" "\<not> failed (state ?w)" "uvInstalled (state ?w)" "bunInstalled (state ?w)"
    using both_present_final by (simp_all add: env_ready_def)
  then have "start demo_env 9 ?w = (Resolved (state ?w), emitState 9 ?w)"
    by (simp add: start_def)
  with r both_present_runs both_present_concluded show ?thesis
    by simp
qed

text \<open>
  Claim C7, amended. The promise of \<open>start\<close> is never rejected: after any sequence of calls
  and resumptions every settled promise is resolved with a state that is done. When a piece
  of the run throws, the step that runs it settles the promise with the state, which is
  failed and done, clears \<^verbatim>\<open>this.running\<close> and leaves no run behind; the same holds, without
  the failure, when the run returns; and the handlers do so for any thrown message. Whenever
  no run is left \<^verbatim>\<open>this.running\<close> is clear. A later \<open>start\<close> launches a fresh run under a
  fresh promise, beginning with the probe of uvx, unless the cached state is ready; when it
  is ready, \<open>start\<close> emits one snapshot, returns the cached state and launches nothing.
\<close>

theorem C7_start_never_rejects:
  assumes "execute e as (init e) = Some w"
  shows "(\<forall>h r. settled w h = Some r \<longrightarrow> (\<exists>st. r = Inr st \<and> done_flag st))
       \<and> (\<forall>t i w1 msg. t \<in> set (tasks w)
              \<and> resume e (task_sender t) (task_at t) i w = Some (w1, Throw msg) \<longrightarrow>
            (\<exists>w'. step e (Deliver (task_handle t) i) w = Some w'
               \<and> settled w' (task_handle t) = Some (Inr (state w'))
               \<and> failed (state w') \<and> done_flag (state w')
               \<and> running w' = None \<and> tasks w' = []))
       \<and> (\<forall>t i w1. t \<in> set (tasks w)
              \<and> resume e (task_sender t) (task_at t) i w = Some (w1, Return) \<longrightarrow>
            (\<exists>w'. step e (Deliver (task_handle t) i) w = Some w'
               \<and> settled w' (task_handle t) = Some (Inr (state w'))
               \<and> done_flag (state w')
               \<and> running w' = None \<and> tasks w' = []))
       \<and> (running w = None) = (tasks w = [])
       \<and> (running w = None \<and> \<not> env_ready (state w) \<longrightarrow>
            (\<forall>s. fst (start e s w) = Pending (nextHandle w)
               \<and> settled w (nextHandle w) = None
               \<and> tasks (snd (start e s w)) =
                   [\<lparr>task_sender = s, task_handle = nextHandle w, task_at = AwaitUvx\<rparr>]
               \<and> calls (snd (start e s w)) = calls w @ [Probe ''uvx'']))
       \<and> (\<forall>t msg w1.
             settled (finish e t (Inl msg) w1) (task_handle t)
               = Some (Inr (state (finish e t (Inl msg) w1)))
             \<and> failed (state (finish e t (Inl msg) w1))
             \<and> done_flag (state (finish e t (Inl msg) w1))
             \<and> running (finish e t (Inl msg) w1) = None)
       \<and> (env_ready (state w) \<longrightarrow>
            (\<forall>s. start e s w =
                   (Resolved (state w), w\<lparr>sent := sent w @ [(s, StateEvent (state w))]\<rparr>)))"
proof -
  have ok: "world_ok w"
    using assms by (rule reachable_ok)
  have rd: "env_ready (state w) \<longrightarrow>
            (\<forall>s. start e s w =
                   (Resolved (state w), w\<lparr>sent := sent w @ [(s, StateEvent (state w))]\<rparr>))"
    by (simp add: start_def env_ready_def emitState_def emit_def)
  have g: "\<forall>t msg w1.
             settled (finish e t (Inl msg) w1) (task_handle t)
               = Some (Inr (state (finish e t (Inl msg) w1)))
             \<and> failed (state (finish e t (Inl msg) w1))
             \<and> done_flag (state (finish e t (Inl msg) w1))
             \<and> running (finish e t (Inl msg) w1) = None"
    by (simp add: finish_fields finish_Inl)
  have a: "\<forall>h r. settled w h = Some r \<longrightarrow> (\<exists>st. r = Inr st \<and> done_flag st)"
    using ok by (simp add: world_ok_def settled_ok_def)
  have b: "\<forall>t i w1 msg. t \<in> set (tasks w)
              \<and> resume e (task_sender t) (task_at t) i w = Some (w1, Throw msg) \<longrightarrow>
            (\<exists>w'. step e (Deliver (task_handle t) i) w = Some w'
               \<and> settled w' (task_handle t) = Some (Inr (state w'))
               \<and> failed (state w') \<and> done_flag (state w')
               \<and> running w' = None \<and> tasks w' = [])"
    using concluded [OF ok, where out = "Throw _"] by blast
  have c: "\<forall>t i w1. t \<in> set (tasks w)
              \<and> resume e (task_sender t) (task_at t) i w = Some (w1, Return) \<longrightarrow>
            (\<exists>w'. step e (Deliver (task_handle t) i) w = Some w'
               \<and> settled w' (task_handle t) = Some (Inr (state w'))
               \<and> done_flag (state w')
               \<and> running w' = None \<and> tasks w' = [])"
    using concluded [OF ok, where out = Return] by blast
  have d: "(running w = None) = (tasks w = [])"
    using ok by (auto simp add: world_ok_def tasks_ok_def split: list.splits)
  have f: "fst (start e s w) = Pending (nextHandle w)
               \<and> settled w (nextHandle w) = None
               \<and> tasks (snd (start e s w)) =
                   [\<lparr>task_sender = s, task_handle = nextHandle w, task_at = AwaitUvx\<rparr>]
               \<and> calls (snd (start e s w)) = calls w @ [Probe ''uvx'']"
    if "running w = None" "\<not> env_ready (state w)" for s
  proof -
    from that d have nt: "tasks w = []" by simp
    have "settled w (nextHandle w) = None"
      using ok by (cases "settled w (nextHandle w)") (auto simp add: world_ok_def settled_ok_def)
    then show ?thesis
      using start_fresh(1,5,6) [OF that(2,1), of e s] nt by simp
  qed
  from a b c d f g rd show ?thesis
    by blast
qed

theorem C7_start_never_rejects_witness:
  "execute demo_env bun_spawn_fails (init demo_env) \<noteq> None
   \<and> settled (the (execute demo_env bun_spawn_fails (init demo_env))) 0 =
       Some (Inr (state (the (execute demo_env bun_spawn_fails (init demo_env)))))
   \<and> failed (state (the (execute demo_env bun_spawn_fails (init demo_env))))
   \<and> done_flag (state (the (execute demo_env bun_spawn_fails (init demo_env))))
   \<and> running (the (execute demo_env bun_spawn_fails (init demo_env))) = None
   \<and> tasks (the (execute demo_env bun_spawn_fails (init demo_env))) = []
   \<and> fst (start demo_env 9 (the (execute demo_env bun_spawn_fails (init demo_env)))) = Pending 1
   \<and> tasks (snd (start demo_env 9 (the (execute demo_env bun_spawn_fails (init demo_env))))) =
       [\<lparr>task_sender = 9, task_handle = 1, task_at = AwaitUvx\<rparr>]"
proof -
  let ?w3 = "the (execute demo_env bun_missing (init demo_env))"
  let ?t = "\<lparr>task_sender = 7, task_handle = 0, task_at = AwaitSpawnBun\<rparr>"
  let ?i = "SpawnThrow ''spawn ENOENT''"
  let ?w = "the (execute demo_env bun_spawn_fails (init demo_env))"
  have e3: "execute demo_env bun_missing (init demo_env) = Some ?w3"
    using bun_missing_runs(1) by simp
  have t: "?t \<in> set (tasks ?w3)"
    by (simp add: bun_missing_runs(2))
  have r: "resume demo_env (task_sender ?t) (task_at ?t) ?i ?w3 =
      Some (installBun_catch demo_env 7 ''spawn ENOENT'' ?w3, Throw ''spawn ENOENT'')"
    by (simp add: installBun_threw_def)
  have e: "execute demo_env bun_spawn_fails (init demo_env) =
             step demo_env (Deliver (task_handle ?t) ?i) ?w3"
    by (simp add: bun_spawn_fails_def execute_snoc bun_missing_runs(1) del: step.simps)
  from C7_start_never_rejects [OF e3] t r
  obtain w' where w': "step demo_env (Deliver (task_handle ?t) ?i) ?w3 = Some w'"
    "settled w' (task_handle ?t) = Some (Inr (state w'))" "failed (state w')" "done_flag (state w')"
    "running w' = None" "tasks w' = []"
    by blast
  from w'(1) e have ew: "execute demo_env bun_spawn_fails (init demo_env) = Some w'" and ww: "?w = w'"
    by simp_all
  have "w' = finish demo_env ?t (Inl ''spawn ENOENT'')
               (installBun_catch demo_env 7 ''spawn ENOENT'' ?w3)"
    using w'(1) by (simp add: bun_missing_runs(2) installBun_threw_def)
  then have nh: "nextHandle w' = 1"
    using bun_missing_handle by (simp add: finish_fields installBun_catch_def)
  from w'(3) have nr: "\<not> env_ready (state w')"
    by (simp add: env_ready_def)
  from C7_start_never_rejects [OF ew] w'(5) nr nh
  have "fst (start demo_env 9 w') = Pending 1
      \<and> tasks (snd (start demo_env 9 w')) = [\<lparr>task_sender = 9, task_handle = 1, task_at = AwaitUvx\<rparr>]"
    by simp
  with ew w' show ?thesis
    unfolding ww by simp
qed

section \<open>Stage events\<close>

lemma follow_stages_None [simp]: "follow_stages None evs = None"
  by simp

lemma follow_stages_append:
  "follow_stages c xs = Some d \<Longrightarrow> follow_stages c (xs @ ys) = follow_stages (Some d) ys"
  by (induction c xs rule: follow_stages.induct)
     (auto split: list.splits prod.splits McpEnvInitEvent.splits if_splits)

lemma follow_stages_prims [simp]:
  "follow_stages c (sent w) = Some (stage (state w))
     \<Longrightarrow> follow_stages c (sent (emitState s w)) = Some (stage (state w))"
  "follow_stages c (sent w) = Some (stage (state w))
     \<Longrightarrow> follow_stages c (sent (pushLog e s lv msg src w)) = Some (stage (state w))"
  "follow_stages c (sent w) = Some (stage (state w))
     \<Longrightarrow> follow_stages c (sent (setStage e s x w)) = Some x"
  "follow_stages c (sent w) = Some (stage (state w))
     \<Longrightarrow> follow_stages c (sent (fail e s err w)) = Some Failed"
  by (simp_all add: emitState_sent pushLog_sent setStage_sent fail_sent_explicit
      follow_stages_append Let_def)

lemma stages_followed_pieces:
  "stages_followed w \<Longrightarrow> stages_followed (fst (run_begin e s w))"
  "stages_followed w \<Longrightarrow> stages_followed (fst (run_uv_checked e s uvOk w))"
  "stages_followed w \<Longrightarrow> stages_followed (fst (installUv_begin e s needBun w))"
  "stages_followed w \<Longrightarrow> stages_followed (fst (installBun_begin e s w))"
  "stages_followed w \<Longrightarrow> stages_followed (fst (recheck_begin e s w))"
  by (simp_all add: stages_followed_def run_begin_def run_uv_checked_def installUv_begin_def
      installBun_begin_def recheck_begin_def Let_def)

lemma stages_followed_after_installUv:
  "stages_followed w \<Longrightarrow> stages_followed (fst (run_after_installUv e s needBun w))"
  by (simp add: run_after_installUv_def stages_followed_pieces)

lemma stages_followed_bun_checked:
  "stages_followed w \<Longrightarrow> stages_followed (fst (run_bun_checked e s uvOk bunOk w))"
proof -
  assume a: "stages_followed w"
  have b: "stages_followed (emitState s
     ((warn e s (tr e ''mcp.envInit.messages.needInstall'' @ missing_tools (\<not> uvOk) (\<not> bunOk)) (Some System)
        (setStage e s NeedInstall
          (info e s (if bunOk then tr e ''mcp.envInit.messages.bunInstalled''
                     else tr e ''mcp.envInit.messages.bunNotInstalled'') (Some Bun)
            (emitState s (w\<lparr>state := (state w)\<lparr>bunInstalled := bunOk\<rparr>\<rparr>)))))
       \<lparr>state := (state (warn e s (tr e ''mcp.envInit.messages.needInstall'' @ missing_tools (\<not> uvOk) (\<not> bunOk)) (Some System)
        (setStage e s NeedInstall
          (info e s (if bunOk then tr e ''mcp.envInit.messages.bunInstalled''
                     else tr e ''mcp.envInit.messages.bunNotInstalled'') (Some Bun)
            (emitState s (w\<lparr>state := (state w)\<lparr>bunInstalled := bunOk\<rparr>\<rparr>))))))\<lparr>installing := True\<rparr>\<rparr>))"
    using a by (simp add: stages_followed_def)
  show ?thesis
  proof (cases "uvOk \<and> bunOk")
    case True
    with a show ?thesis
      by (simp add: run_bun_checked_def Let_def stages_followed_def)
  next
    case False
    with b show ?thesis
      by (auto simp add: run_bun_checked_def Let_def
          intro!: stages_followed_pieces stages_followed_after_installUv)
  qed
qed

lemma stages_followed_installers:
  "stages_followed w \<Longrightarrow> stages_followed (fst (installUv_exited e s needBun code stderr stdout w))"
  "stages_followed w \<Longrightarrow> stages_followed (fst (installUv_threw e s thrown w))"
  "stages_followed w \<Longrightarrow> stages_followed (fst (installBun_exited e s code stderr stdout w))"
  "stages_followed w \<Longrightarrow> stages_followed (fst (installBun_threw e s thrown w))"
proof -
  assume a: "stages_followed w"
  have i: "stages_followed (info e s m src w)" for m src
    using a by (simp add: stages_followed_def)
  have f: "stages_followed (fail e s err w)" for err
    using a by (simp add: stages_followed_def)
  show "stages_followed (fst (installUv_exited e s needBun code stderr stdout w))"
    using i f by (simp add: installUv_exited_def installUv_try_def installUv_catch_def
        stages_followed_after_installUv del: log_fields)
  show "stages_followed (fst (installUv_threw e s thrown w))"
    using a f by (simp add: installUv_threw_def installUv_catch_def)
  show "stages_followed (fst (installBun_exited e s code stderr stdout w))"
    using i f by (simp add: installBun_exited_def installBun_try_def installBun_catch_def
        stages_followed_pieces del: log_fields)
  show "stages_followed (fst (installBun_threw e s thrown w))"
    using a f by (simp add: installBun_threw_def installBun_catch_def)
qed

lemma stages_followed_rechecked:
  "stages_followed w \<Longrightarrow> stages_followed (fst (run_rechecked e s uvOk2 bunOk2 w))"
  by (auto simp add: stages_followed_def run_rechecked_def Let_def now_def)

lemma stages_followed_onChunk:
  assumes "\<And>msg w. lg msg w = pushLog e s lv msg src w"
  shows "stages_followed w \<Longrightarrow> stages_followed (onChunk lg chunk w)"
proof -
  have "stages_followed w1 \<Longrightarrow>
     stages_followed (fold (\<lambda>line w. let msg = trim line in if msg \<noteq> [] then lg msg w else w) ls w1)"
    for ls w1
    by (induction ls arbitrary: w1) (simp_all add: assms Let_def stages_followed_def)
  then show "stages_followed w \<Longrightarrow> stages_followed (onChunk lg chunk w)"
    by (simp add: onChunk_def)
qed

lemma stages_followed_resume:
  assumes "stages_followed w" and "resume e s a i w = Some r"
  shows "stages_followed (fst r)"
proof (cases a)
  case AwaitUvx
  with assms show ?thesis
    by (cases i) (auto simp add: stages_followed_pieces, simp add: stages_followed_def)
next
  case AwaitUv
  with assms show ?thesis
    by (cases i) (auto simp add: stages_followed_pieces)
next
  case (AwaitBun uvOk)
  with assms show ?thesis
    by (cases i) (auto simp add: stages_followed_bun_checked)
next
  case (AwaitSpawnUv needBun)
  with assms show ?thesis
    by (cases i) (auto simp add: stages_followed_installers intro!: stages_followed_onChunk)
next
  case AwaitSpawnBun
  with assms show ?thesis
    by (cases i) (auto simp add: stages_followed_installers intro!: stages_followed_onChunk)
next
  case AwaitUvx2
  with assms show ?thesis
    by (cases i) (auto simp add: stages_followed_def)
next
  case AwaitUv2
  with assms show ?thesis
    by (cases i) (auto simp add: stages_followed_def)
next
  case (AwaitBun2 uvOk2)
  with assms show ?thesis
    by (cases i) (auto simp add: stages_followed_rechecked)
qed

lemma stages_followed_proceed:
  "stages_followed (fst r) \<Longrightarrow> stages_followed (proceed e t r)"
  by (cases r; cases "snd r")
     (simp_all add: stages_followed_def finish_Inr finish_Inl)

lemma stages_followed_start:
  "stages_followed w \<Longrightarrow> stages_followed (snd (start e s w))"
  by (simp add: start_def Let_def now_def run_begin_def stages_followed_def)

lemma stages_followed_step:
  "stages_followed w \<Longrightarrow> step e a w = Some w' \<Longrightarrow> stages_followed w'"
  by (cases a)
     (auto simp add: stages_followed_start split: option.splits
        intro!: stages_followed_proceed stages_followed_resume)

lemma stages_followed_execute:
  "stages_followed w \<Longrightarrow> execute e as w = Some w' \<Longrightarrow> stages_followed w'"
  by (induction as arbitrary: w) (auto split: option.splits dest: stages_followed_step)

lemma stages_followed_init: "stages_followed (init e)"
  by (simp add: stages_followed_def)


lemma stage_events_prims [simp]:
  "stage_events (sent (emitState s w)) = stage_events (sent w)"
  "stage_events (sent (pushLog e s lv msg src w)) = stage_events (sent w)"
  "stage_events (sent (setStage e s x w)) = stage_events (sent w) @ [x]"
  "stage_events (sent (fail e s err w)) = stage_events (sent w)"
  by (simp_all add: emitState_sent pushLog_sent setStage_sent fail_sent_explicit Let_def)

lemma fail_snapshot_failed:
  "Failed \<in> set (map stage (snapshots (sent (fail e s err w))))"
proof -
  have "stage (snapshots (sent (fail e s err w)) ! length (snapshots (sent w))) = Failed"
    by (simp add: snapshots_fail_first)
  moreover have "snapshots (sent (fail e s err w)) ! length (snapshots (sent w))
      \<in> set (snapshots (sent (fail e s err w)))"
    by (rule nth_mem) (rule snapshots_fail_longer)
  ultimately show ?thesis
    by force
qed

lemma bun_spawn_fails_world:
  "the (execute demo_env bun_spawn_fails (init demo_env)) =
     finish demo_env \<lparr>task_sender = 7, task_handle = 0, task_at = AwaitSpawnBun\<rparr>
       (Inl ''spawn ENOENT'')
       (installBun_catch demo_env 7 ''spawn ENOENT''
          (the (execute demo_env bun_missing (init demo_env))))"
  by (simp add: bun_spawn_fails_def execute_snoc bun_missing_runs installBun_threw_def)

text \<open>
  Claim C4, as the claim states it, fails: when the bun installer cannot be started the state
  ends in stage \<open>Failed\<close> and observers receive snapshots with that stage, but no stage
  event for \<open>Failed\<close> is among the emitted events.
\<close>

theorem C4_failed_not_announced:
  "execute demo_env bun_spawn_fails (init demo_env) \<noteq> None
   \<and> stage (state (the (execute demo_env bun_spawn_fails (init demo_env)))) = Failed
   \<and> Failed \<in> set (map stage (snapshots (sent (the (execute demo_env bun_spawn_fails (init demo_env))))))
   \<and> Failed \<notin> set (stage_events (sent (the (execute demo_env bun_spawn_fails (init demo_env)))))"
proof -
  from bun_spawn_fails_runs obtain w
    where w: "execute demo_env bun_spawn_fails (init demo_env) = Some w"
    by blast
  then have "world_ok w"
    by (rule reachable_ok)
  then have "Failed \<notin> set (stage_events (sent w))"
    by (simp add: world_ok_def trace_ok_def)
  moreover have "stage (state (the (execute demo_env bun_spawn_fails (init demo_env)))) = Failed"
    "Failed \<in> set (map stage (snapshots (sent (the (execute demo_env bun_spawn_fails (init demo_env))))))"
    unfolding bun_spawn_fails_world by (simp_all only: finish_Inl fail_flags fail_snapshot_failed)
  ultimately show ?thesis
    using w by simp
qed

text \<open>
  Claim C4, amended. In the events of any execution every stage event is followed at once
  by a snapshot for the same observer whose stage is the announced one; every snapshot whose
  stage differs from the stage before it is the snapshot that follows its stage event, or
  shows \<open>Failed\<close>; and no stage event announces \<open>Failed\<close>. \<open>setStage\<close> emits exactly the stage
  event, carrying the new \<open>updatedAt\<close>, and the snapshot with the new stage. \<open>fail\<close> emits no
  stage event: the first event it emits is a snapshot whose stage is \<open>Failed\<close>.
\<close>

theorem C4_stage_snapshot_order:
  assumes "execute e as (init e) = Some w"
  shows "stage_ok (sent w) \<and> stages_followed w \<and> Failed \<notin> set (stage_events (sent w))
       \<and> (\<forall>s x w0. sent (setStage e s x w0) =
              sent w0 @ [(s, StageEvent x (updatedAt (state (setStage e s x w0)))),
                         (s, StateEvent (state (setStage e s x w0)))]
            \<and> stage (state (setStage e s x w0)) = x)
       \<and> (\<forall>s err w0. stage_events (sent (fail e s err w0)) = stage_events (sent w0)
            \<and> stage (state (fail e s err w0)) = Failed
            \<and> stage (snapshots (sent (fail e s err w0)) ! length (snapshots (sent w0))) = Failed)"
proof -
  have "world_ok w"
    using assms by (rule reachable_ok)
  then have "stage_ok (sent w)" "Failed \<notin> set (stage_events (sent w))"
    by (simp_all add: world_ok_def trace_ok_def)
  moreover have "stages_followed w"
    using stages_followed_init assms by (rule stages_followed_execute)
  ultimately show ?thesis
    by (simp add: setStage_sent [symmetric] snapshots_fail_first)
qed

theorem C4_stage_snapshot_order_witness:
  "execute demo_env bun_spawn_fails (init demo_env) \<noteq> None
   \<and> stage_ok (sent (the (execute demo_env bun_spawn_fails (init demo_env))))
   \<and> stages_followed (the (execute demo_env bun_spawn_fails (init demo_env)))
   \<and> stage_events (sent (the (execute demo_env bun_spawn_fails (init demo_env)))) =
       [StartCheck, CheckUv, CheckBun, NeedInstall, StartInstallBun, InstallingBun]"
proof -
  from bun_spawn_fails_runs obtain w
    where w: "execute demo_env bun_spawn_fails (init demo_env) = Some w"
    by blast
  have "stage_events (sent (the (execute demo_env bun_missing (init demo_env)))) =
       [StartCheck, CheckUv, CheckBun, NeedInstall, StartInstallBun, InstallingBun]"
    by (simp add: bun_missing_def start_def now_def run_begin_def env_ready_def
        run_uv_checked_def run_bun_checked_def installBun_begin_def run_after_installUv_def Let_def)
  then have "stage_events (sent (the (execute demo_env bun_spawn_fails (init demo_env)))) =
       [StartCheck, CheckUv, CheckBun, NeedInstall, StartInstallBun, InstallingBun]"
    unfolding bun_spawn_fails_world by (simp add: finish_Inl installBun_catch_def)
  with C4_stage_snapshot_order [OF w] w show ?thesis
    by simp
qed

section \<open>The installers' failure details\<close>

lemma toLowerCase_simps [simp]:
  "toLowerCase [] = []" "toLowerCase (c # cs) = toLowerCase_char c # toLowerCase cs"
  by (simp_all add: toLowerCase_def)

lemma no_hint_for_enoent: "summarizeFailure e [] ''spawn ENOENT'' = None"
  by (simp add: summarizeFailure_def toLowerCase_char_def Let_def)


lemma suspended_in_progress:
  assumes "execute e as (init e) \<noteq> None" and "tasks (the (execute e as (init e))) \<noteq> []"
  shows "in_progress (state (the (execute e as (init e))))"
proof -
  from assms(1) obtain w where w: "execute e as (init e) = Some w"
    by blast
  then have "tasks_ok w"
    using reachable_ok by (simp add: world_ok_def)
  with assms(2) w have "awaiting_ok (task_at (hd (tasks w))) (state w)"
    by (cases "tasks w") (simp_all add: tasks_ok_def split: list.splits)
  then have "in_progress (state w)"
    by (cases "task_at (hd (tasks w))") simp_all
  with w show ?thesis
    by simp
qed

lemma missing_flags:
  "\<not> failed (state (the (execute demo_env uv_missing (init demo_env))))"
  "\<not> failed (state (the (execute demo_env bun_missing (init demo_env))))"
  using suspended_in_progress [OF uv_missing_runs(1)] suspended_in_progress [OF bun_missing_runs(1)]
  by (simp_all add: uv_missing_runs(2) bun_missing_runs(2) in_progress_def)

text \<open>
  Claim C8, as the claim states it, fails: on Windows, when the installer process cannot be
  started, the uv installer stores the PowerShell and firewall hint, but the bun installer
  stores the general network, permission and certificate hint.
\<close>

theorem C8_bun_hint_not_by_platform:
  "isWin demo_env
   \<and> \<not> failed (state (the (execute demo_env uv_missing (init demo_env))))
   \<and> suggestion (the (error (state (fst (installUv_threw demo_env 7 ''spawn ENOENT''
         (the (execute demo_env uv_missing (init demo_env))))))))
       = Some ''mcp.envInit.messages.checkPowerShellFirewall''
   \<and> \<not> failed (state (the (execute demo_env bun_missing (init demo_env))))
   \<and> suggestion (the (error (state (fst (installBun_threw demo_env 7 ''spawn ENOENT''
         (the (execute demo_env bun_missing (init demo_env))))))))
       = Some ''mcp.envInit.messages.checkNetworkPermissionCert''"
  by (simp add: missing_flags installUv_threw_def installUv_catch_def installBun_threw_def
      installBun_catch_def no_hint_for_enoent truthy_def)

text \<open>
  Claim C8, amended. When an installer's process cannot be started and the state is not yet
  failed, the installer calls \<open>fail\<close> with a detail made of the installer's prefix followed
  by the thrown message and of the command line, without exit code or output tails, and
  rethrows. For uv the suggestion is the PowerShell and firewall hint on Windows and the
  network and proxy hint elsewhere. For bun the suggestion is what the classifier finds in
  the thrown message, when that is a non-empty text, and otherwise the general network,
  permission and certificate hint, whatever the platform. The detail is in the first
  snapshot the installer emits then.
\<close>

theorem C8_spawn_failure_suggestion:
  assumes "\<not> failed (state w)"
  shows "error (state (fst (installUv_threw e s thrown w))) =
           Some \<lparr>message_err = tr e ''mcp.envInit.messages.uvInstallException'' @ thrown,
                 command = Some (execPath e @ '' '' @ scriptPath e ''install-uv.js''),
                 exitCode = None, stderrTail = None, stdoutTail = None,
                 suggestion = Some (if isWin e then tr e ''mcp.envInit.messages.checkPowerShellFirewall''
                                    else tr e ''mcp.envInit.messages.checkNetworkProxy'')\<rparr>
       \<and> snd (installUv_threw e s thrown w) = Throw thrown
       \<and> error (state (fst (installBun_threw e s thrown w))) =
           Some \<lparr>message_err = tr e ''mcp.envInit.messages.bunInstallException'' @ thrown,
                 command = Some (execPath e @ '' '' @ scriptPath e ''install-bun.js''),
                 exitCode = None, stderrTail = None, stdoutTail = None,
                 suggestion = Some (case summarizeFailure e [] thrown of
                                      None \<Rightarrow> tr e ''mcp.envInit.messages.checkNetworkPermissionCert''
                                    | Some hint \<Rightarrow>
                                        if hint = [] then tr e ''mcp.envInit.messages.checkNetworkPermissionCert''
                                        else hint)\<rparr>
       \<and> snd (installBun_threw e s thrown w) = Throw thrown
       \<and> error (snapshots (sent (fst (installUv_threw e s thrown w))) ! length (snapshots (sent w)))
           = error (state (fst (installUv_threw e s thrown w)))
       \<and> error (snapshots (sent (fst (installBun_threw e s thrown w))) ! length (snapshots (sent w)))
           = error (state (fst (installBun_threw e s thrown w)))"
  using assms
  by (simp add: installUv_threw_def installUv_catch_def installBun_threw_def installBun_catch_def
      command_of_def uv_script_def bun_script_def truthy_def snapshots_fail_first
      split: option.splits)

theorem C8_spawn_failure_suggestion_witness:
  "\<not> failed (state (the (execute demo_env bun_missing (init demo_env))))
   \<and> error (state (fst (installUv_threw demo_env 7 ''spawn ENOENT''
         (the (execute demo_env bun_missing (init demo_env)))))) =
       Some \<lparr>message_err = ''mcp.envInit.messages.uvInstallExceptionspawn ENOENT'',
             command = Some ''node /res/scripts/install-uv.js'',
             exitCode = None, stderrTail = None, stdoutTail = None,
             suggestion = Some ''mcp.envInit.messages.checkPowerShellFirewall''\<rparr>
   \<and> error (state (fst (installBun_threw demo_env 7 ''spawn ENOENT''
         (the (execute demo_env bun_missing (init demo_env)))))) =
       Some \<lparr>message_err = ''mcp.envInit.messages.bunInstallExceptionspawn ENOENT'',
             command = Some ''node /res/scripts/install-bun.js'',
             exitCode = None, stderrTail = None, stdoutTail = None,
             suggestion = Some ''mcp.envInit.messages.checkNetworkPermissionCert''\<rparr>
   \<and> snd (installBun_threw demo_env 7 ''spawn ENOENT''
         (the (execute demo_env bun_missing (init demo_env)))) = Throw ''spawn ENOENT''"
  using C8_spawn_failure_suggestion [OF missing_flags(2), of demo_env 7 "''spawn ENOENT''"]
  by (simp add: missing_flags no_hint_for_enoent)

section \<open>Time stamps and the events after the terminal snapshot\<close>

lemma snapshots_prims [simp]:
  "snapshots (sent (emitState s w)) = snapshots (sent w) @ [state w]"
  "snapshots (sent (pushLog e s lv msg src w)) = snapshots (sent w) @ [state (pushLog e s lv msg src w)]"
  "snapshots (sent (setStage e s x w)) = snapshots (sent w) @ [state (setStage e s x w)]"
  by (simp_all add: emitState_sent pushLog_sent setStage_sent)

lemma run_uv_checked_first_snapshot:
  "snapshots (sent (fst (run_uv_checked e s uvOk w))) ! length (snapshots (sent w)) =
     (state w)\<lparr>uvInstalled := uvOk\<rparr>"
  by (simp add: run_uv_checked_def Let_def nth_append)

lemma run_bun_checked_ready_sent:
  "sent (fst (run_bun_checked e s True True w)) =
     (let w1 = info e s (tr e ''mcp.envInit.messages.noNeedInstall'') (Some System)
                 (setStage e s NoNeedInstall
                   (info e s (tr e ''mcp.envInit.messages.bunInstalled'') (Some Bun)
                     (emitState s (w\<lparr>state := (state w)\<lparr>bunInstalled := True\<rparr>\<rparr>))));
          st = state (setStage e s EnvReady w1)
      in sent w1 @ [(s, StageEvent EnvReady (updatedAt st)), (s, StateEvent st),
                    (s, StateEvent (st\<lparr>done_flag := True, installing := False, failed := False\<rparr>))])"
  by (simp add: run_bun_checked_def Let_def setStage_sent emitState_sent)

lemma run_bun_checked_ready_state:
  "state (fst (run_bun_checked e s True True w)) =
     (let w1 = info e s (tr e ''mcp.envInit.messages.noNeedInstall'') (Some System)
                 (setStage e s NoNeedInstall
                   (info e s (tr e ''mcp.envInit.messages.bunInstalled'') (Some Bun)
                     (emitState s (w\<lparr>state := (state w)\<lparr>bunInstalled := True\<rparr>\<rparr>))));
          st = state (setStage e s EnvReady w1)
      in st\<lparr>done_flag := True, installing := False, failed := False\<rparr>)"
  by (simp add: run_bun_checked_def Let_def)

lemma run_rechecked_ready_sent:
  "sent (fst (run_rechecked e s True True w)) =
     (let st0 = (state w)\<lparr>uvInstalled := True, bunInstalled := True, stage := EnvReady,
                            updatedAt := dateNow e (clockReads w)\<rparr>;
          st1 = st0\<lparr>done_flag := True, failed := False, installing := False,
                    updatedAt := dateNow e (Suc (clockReads w))\<rparr>;
          l = \<lparr>ts = dateNow e (Suc (Suc (clockReads w))), level = Info,
               message = tr e ''mcp.envInit.messages.initComplete'', source = Some System\<rparr>;
          st2 = st1\<lparr>logs := slice_last MAX_LOGS (logs (state w) @ [l]),
                    updatedAt := dateNow e (Suc (Suc (Suc (clockReads w))))\<rparr>
      in sent w @ [(s, StageEvent EnvReady (dateNow e (clockReads w))), (s, StateEvent st0),
                   (s, StateEvent st1), (s, LogEvent l), (s, StateEvent st2)])"
  by (simp add: run_rechecked_def Let_def now_def setStage_sent setStage_state emitState_sent
      pushLog_sent pushLog_state)

text \<open>
  Claim C9. The code does not set \<open>updatedAt\<close> at every mutation. After the probe of uv the
  run stores the result and emits a snapshot at once: that snapshot has the new
  \<open>uvInstalled\<close> and the \<open>updatedAt\<close> of the state before. When both tools are present the
  run sets \<open>done\<close> after \<open>setStage\<close> and emits a snapshot that differs from the one before
  only in the flags. The success path after an installation sets the same flags and does
  set \<open>updatedAt\<close> from the clock before it emits.
\<close>

theorem C9_updatedAt_stale_after_mutation:
  "updatedAt (snapshots (sent (fst (run_uv_checked e s uvOk w))) ! length (snapshots (sent w)))
      = updatedAt (state w)
   \<and> uvInstalled (snapshots (sent (fst (run_uv_checked e s uvOk w))) ! length (snapshots (sent w)))
      = uvOk
   \<and> (\<exists>evs at st. sent (fst (run_bun_checked e s True True w)) =
          evs @ [(s, StageEvent EnvReady at), (s, StateEvent st),
                 (s, StateEvent (st\<lparr>done_flag := True, installing := False, failed := False\<rparr>))]
        \<and> done_flag st = done_flag (state w))
   \<and> (\<exists>evs at st l st2. sent (fst (run_rechecked e s True True w)) =
          evs @ [(s, StageEvent EnvReady at), (s, StateEvent st),
                 (s, StateEvent (st\<lparr>done_flag := True, failed := False, installing := False,
                                     updatedAt := dateNow e (Suc (clockReads w))\<rparr>)),
                 (s, LogEvent l), (s, StateEvent st2)]
        \<and> done_flag st = done_flag (state w))"
proof -
  have a: "\<exists>evs at st. sent (fst (run_bun_checked e s True True w)) =
          evs @ [(s, StageEvent EnvReady at), (s, StateEvent st),
                 (s, StateEvent (st\<lparr>done_flag := True, installing := False, failed := False\<rparr>))]
        \<and> done_flag st = done_flag (state w)"
    unfolding run_bun_checked_ready_sent Let_def
    by (intro exI conjI) (rule refl, simp)
  have b: "\<exists>evs at st l st2. sent (fst (run_rechecked e s True True w)) =
          evs @ [(s, StageEvent EnvReady at), (s, StateEvent st),
                 (s, StateEvent (st\<lparr>done_flag := True, failed := False, installing := False,
                                     updatedAt := dateNow e (Suc (clockReads w))\<rparr>)),
                 (s, LogEvent l), (s, StateEvent st2)]
        \<and> done_flag st = done_flag (state w)"
    unfolding run_rechecked_ready_sent Let_def
    by (intro exI conjI) (rule refl, simp)
  from a b show ?thesis
    by (simp add: run_uv_checked_first_snapshot)
qed

lemma first_start_values:
  "updatedAt (state (snd (start demo_env 7 (init demo_env)))) = 7"
  "clockReads (snd (start demo_env 7 (init demo_env))) = 8"
  "\<not> uvInstalled (state (snd (start demo_env 7 (init demo_env))))"
  "tasks (snd (start demo_env 7 (init demo_env))) =
     [\<lparr>task_sender = 7, task_handle = 0, task_at = AwaitUvx\<rparr>]"
  by (simp_all add: start_def env_ready_def now_def Let_def run_begin_def pushLog_state
      setStage_state)

theorem C9_updatedAt_stale_after_mutation_witness:
  "\<not> uvInstalled (state (snd (start demo_env 7 (init demo_env))))
   \<and> updatedAt (state (snd (start demo_env 7 (init demo_env)))) = 7
   \<and> dateNow demo_env (clockReads (snd (start demo_env 7 (init demo_env)))) = 8
   \<and> sent (the (execute demo_env [CallStart 7, Deliver 0 (ProbeResult True)] (init demo_env)))
       = sent (fst (run_uv_checked demo_env 7 True (snd (start demo_env 7 (init demo_env)))))
   \<and> uvInstalled (snapshots (sent (fst (run_uv_checked demo_env 7 True
         (snd (start demo_env 7 (init demo_env))))))
       ! length (snapshots (sent (snd (start demo_env 7 (init demo_env))))))
   \<and> updatedAt (snapshots (sent (fst (run_uv_checked demo_env 7 True
         (snd (start demo_env 7 (init demo_env))))))
       ! length (snapshots (sent (snd (start demo_env 7 (init demo_env)))))) = 7"
proof -
  let ?w = "snd (start demo_env 7 (init demo_env))"
  have "sent (the (execute demo_env [CallStart 7, Deliver 0 (ProbeResult True)] (init demo_env)))
       = sent (fst (run_uv_checked demo_env 7 True ?w))"
    by (simp add: first_start_values run_uv_checked_def Let_def)
  with C9_updatedAt_stale_after_mutation [of demo_env 7 True ?w] show ?thesis
    by (simp add: first_start_values)
qed

lemma last_slice_last: "0 < n \<Longrightarrow> last (slice_last n (xs @ [x])) = x"
  by (simp add: slice_last_def)

lemma first_start_snapshots:
  "filter done_flag (snapshots (sent (snd (start demo_env 7 (init demo_env))))) = []"
  "\<not> done_flag (state (snd (start demo_env 7 (init demo_env))))"
  by (simp_all add: start_def env_ready_def now_def Let_def run_begin_def)

text \<open>
  Claim C10, as the claim states it, fails: when both tools are present at the first start,
  exactly one snapshot with \<open>done\<close> set is emitted, and it is the last event of the run.
\<close>

theorem C10_first_done_snapshot_is_last:
  "execute demo_env both_present (init demo_env) \<noteq> None
   \<and> filter done_flag (snapshots (sent (the (execute demo_env both_present (init demo_env)))))
       = [state (the (execute demo_env both_present (init demo_env)))]
   \<and> last (sent (the (execute demo_env both_present (init demo_env))))
       = (7, StateEvent (state (the (execute demo_env both_present (init demo_env)))))"
proof -
  have "filter done_flag (snapshots (sent (the (execute demo_env both_present (init demo_env)))))
       = [state (the (execute demo_env both_present (init demo_env)))]"
    by (simp add: both_present_def first_start_values finish_Inr run_bun_checked_def
        run_uv_checked_def Let_def first_start_snapshots)
  moreover have "last (sent (the (execute demo_env both_present (init demo_env))))
       = (7, StateEvent (state (the (execute demo_env both_present (init demo_env)))))"
    by (simp add: both_present_def first_start_values finish_Inr run_bun_checked_def
        run_uv_checked_def Let_def emitState_sent)
  ultimately show ?thesis
    using both_present_runs by simp
qed

text \<open>
  Claim C10, amended. \<open>fail\<close> emits its snapshot with \<open>done\<close> set and then a log event of
  level error, whose entry is the last of the log in the snapshot that follows it; when the
  suggestion is a non-empty text a log event of level warn and a further snapshot follow,
  and nothing else otherwise. The success path after an installation emits the stage event
  for \<open>EnvReady\<close> and its snapshot, then the snapshot with \<open>done\<close> set, then the log event
  of the init-complete message and a further snapshot. The path that finds both tools present
  ends with its snapshot with \<open>done\<close> set: the snapshots it emits before that one have
  \<open>done\<close> as it was.
\<close>

theorem C10_events_after_done:
  "(\<exists>st1 l1 st2 rest.
       sent (fail e s err w) = sent w @ (s, StateEvent st1) # (s, LogEvent l1) # (s, StateEvent st2) # rest
     \<and> done_flag st1 \<and> level l1 = Error
     \<and> message l1 = tr e ''mcp.envInit.messages.initFailed'' @ message_err err
     \<and> last (logs st2) = l1
     \<and> (truthy (suggestion err) \<longrightarrow>
          (\<exists>l2 st3. rest = [(s, LogEvent l2), (s, StateEvent st3)] \<and> level l2 = Warn
             \<and> message l2 = tr e ''mcp.envInit.errors.suggestion'' @ the (suggestion err)
             \<and> last (logs st3) = l2))
     \<and> (\<not> truthy (suggestion err) \<longrightarrow> rest = []))
   \<and> (\<exists>at st0 st1 l st2.
       sent (fst (run_rechecked e s True True w)) =
         sent w @ [(s, StageEvent EnvReady at), (s, StateEvent st0), (s, StateEvent st1),
                   (s, LogEvent l), (s, StateEvent st2)]
     \<and> done_flag st0 = done_flag (state w) \<and> done_flag st1 \<and> level l = Info
     \<and> message l = tr e ''mcp.envInit.messages.initComplete'' \<and> last (logs st2) = l)
   \<and> (\<exists>evs.
       sent (fst (run_bun_checked e s True True w)) =
         sent w @ evs @ [(s, StateEvent (state (fst (run_bun_checked e s True True w))))]
     \<and> done_flag (state (fst (run_bun_checked e s True True w)))
     \<and> list_all (\<lambda>st. done_flag st = done_flag (state w)) (snapshots evs))"
proof -
  have a: "\<exists>st1 l1 st2 rest.
       sent (fail e s err w) = sent w @ (s, StateEvent st1) # (s, LogEvent l1) # (s, StateEvent st2) # rest
     \<and> done_flag st1 \<and> level l1 = Error
     \<and> message l1 = tr e ''mcp.envInit.messages.initFailed'' @ message_err err
     \<and> last (logs st2) = l1
     \<and> (truthy (suggestion err) \<longrightarrow>
          (\<exists>l2 st3. rest = [(s, LogEvent l2), (s, StateEvent st3)] \<and> level l2 = Warn
             \<and> message l2 = tr e ''mcp.envInit.errors.suggestion'' @ the (suggestion err)
             \<and> last (logs st3) = l2))
     \<and> (\<not> truthy (suggestion err) \<longrightarrow> rest = [])"
    by (cases "truthy (suggestion err)")
       (simp_all add: fail_sent_explicit Let_def last_slice_last MAX_LOGS_def)
  have b: "\<exists>at st0 st1 l st2.
       sent (fst (run_rechecked e s True True w)) =
         sent w @ [(s, StageEvent EnvReady at), (s, StateEvent st0), (s, StateEvent st1),
                   (s, LogEvent l), (s, StateEvent st2)]
     \<and> done_flag st0 = done_flag (state w) \<and> done_flag st1 \<and> level l = Info
     \<and> message l = tr e ''mcp.envInit.messages.initComplete'' \<and> last (logs st2) = l"
    by (simp add: run_rechecked_ready_sent Let_def last_slice_last MAX_LOGS_def)
  have c: "\<exists>evs.
       sent (fst (run_bun_checked e s True True w)) =
         sent w @ evs @ [(s, StateEvent (state (fst (run_bun_checked e s True True w))))]
     \<and> done_flag (state (fst (run_bun_checked e s True True w)))
     \<and> list_all (\<lambda>st. done_flag st = done_flag (state w)) (snapshots evs)"
    unfolding run_bun_checked_ready_sent run_bun_checked_ready_state Let_def
    by (simp add: pushLog_sent setStage_sent emitState_sent)
  from a b c show ?thesis
    by blast
qed

theorem C10_events_after_done_witness:
  "truthy (suggestion demo_error)
   \<and> length (sent (fail demo_env 7 demo_error (init demo_env))) = 5
   \<and> map done_flag (snapshots (sent (fail demo_env 7 demo_error (init demo_env)))) = [True, True, True]
   \<and> map message (logs (state (fail demo_env 7 demo_error (init demo_env)))) =
        [''mcp.envInit.messages.initFailedrecheck failed'',
         ''mcp.envInit.errors.suggestioncheck security software'']
   \<and> length (sent (fst (run_rechecked demo_env 7 True True (init demo_env)))) = 5
   \<and> map done_flag (snapshots (sent (fst (run_rechecked demo_env 7 True True (init demo_env)))))
        = [False, True, True]
   \<and> map done_flag (snapshots (sent (fst (run_bun_checked demo_env 7 True True (init demo_env)))))
        = [False, False, False, False, False, True]"
proof -
  have t: "truthy (suggestion demo_error)"
    by (simp add: demo_error_def truthy_def)
  note c = C10_events_after_done [of demo_env 7 demo_error "init demo_env"]
  from c t obtain st1 l1 st2 l2 st3 where
    f: "sent (fail demo_env 7 demo_error (init demo_env)) =
          [(7, StateEvent st1), (7, LogEvent l1), (7, StateEvent st2), (7, LogEvent l2), (7, StateEvent st3)]"
    by auto
  from c obtain at st0 st1' l st2' where
    r: "sent (fst (run_rechecked demo_env 7 True True (init demo_env))) =
         [(7, StageEvent EnvReady at), (7, StateEvent st0), (7, StateEvent st1'),
          (7, LogEvent l), (7, StateEvent st2')]"
    by auto
  have "map done_flag (snapshots (sent (fail demo_env 7 demo_error (init demo_env)))) = [True, True, True]"
    by (simp add: fail_sent_explicit Let_def t)
  moreover have "map message (logs (state (fail demo_env 7 demo_error (init demo_env)))) =
        [''mcp.envInit.messages.initFailedrecheck failed'',
         ''mcp.envInit.errors.suggestioncheck security software'']"
    by (simp add: fail_def Let_def now_def truthy_def pushLog_state slice_last_def MAX_LOGS_def
        demo_error_def)
  moreover have "map done_flag (snapshots (sent (fst (run_rechecked demo_env 7 True True (init demo_env)))))
        = [False, True, True]"
    by (simp add: run_rechecked_ready_sent Let_def)
  moreover have "map done_flag (snapshots (sent (fst (run_bun_checked demo_env 7 True True (init demo_env)))))
        = [False, False, False, False, False, True]"
    by (simp add: run_bun_checked_def Let_def)
  ultimately show ?thesis
    using t f r by simp
qed

end
